theory Spec2Isabelle
  imports Main "HOL-Library.Word"
begin

unbundle bit_operations_syntax

section \<open>Bytes, buffers and JavaScript numbers\<close>

text \<open>
  A Node.js \<open>Buffer\<close> is a list of bytes. A JavaScript string is kept as the list of the
  bytes of its UTF-8 encoding (\<open>string\<close> is a list of 8-bit characters), so
  \<open>Buffer.from(s, 'utf-8')\<close> is the byte-wise image of the string.
\<close>

type_synonym byte = "8 word"
type_synonym Buffer = "byte list"

datatype error =
    TypeError string
  | RangeError
  | Error string
  | AuthenticationError string
  | LibraryError

definition utf8 :: "string \<Rightarrow> Buffer" where
  "utf8 s = map of_char s"

definition subarray :: "Buffer \<Rightarrow> nat \<Rightarrow> nat \<Rightarrow> Buffer" where
  \<comment> \<open>\<open>buf.subarray(start, end)\<close>: both ends are clamped, an end before the start is empty\<close>
  "subarray buf start end = take (end - start) (drop start buf)"

fun uintLE :: "nat \<Rightarrow> nat \<Rightarrow> Buffer" where
  "uintLE 0 v = []"
| "uintLE (Suc n) v = of_nat (v mod 256) # uintLE n (v div 256)"

fun le_value :: "Buffer \<Rightarrow> nat" where
  "le_value [] = 0"
| "le_value (b # bs) = unat b + 256 * le_value bs"

definition writeUIntBE :: "Buffer \<Rightarrow> nat \<Rightarrow> nat \<Rightarrow> nat \<Rightarrow> error + Buffer" where
  \<comment> \<open>\<open>buf.writeUIntBE(value, offset, byteLength)\<close>; a value that does not fit raises\<close>
  "writeUIntBE buf v off n =
     (if v < 2 ^ (8 * n) \<and> off + n \<le> length buf
      then Inr (take off buf @ rev (uintLE n v) @ drop (off + n) buf)
      else Inl RangeError)"

definition readUIntBE :: "Buffer \<Rightarrow> nat \<Rightarrow> nat \<Rightarrow> error + nat" where
  "readUIntBE buf off n =
     (if off + n \<le> length buf then Inr (le_value (rev (take n (drop off buf))))
      else Inl RangeError)"

definition readUIntLE :: "Buffer \<Rightarrow> nat \<Rightarrow> nat \<Rightarrow> error + nat" where
  \<comment> \<open>also \<open>readUInt8\<close>, \<open>readUInt16LE\<close>, \<open>readUInt32LE\<close>, \<open>readBigUInt64LE\<close>\<close>
  "readUIntLE buf off n =
     (if off + n \<le> length buf then Inr (le_value (take n (drop off buf)))
      else Inl RangeError)"

definition writeUIntLE :: "nat \<Rightarrow> nat \<Rightarrow> error + Buffer" where
  \<comment> \<open>the \<open>n\<close> bytes a \<open>writeUInt...LE(value)\<close> stores; a value out of range raises\<close>
  "writeUIntLE n v = (if v < 2 ^ (8 * n) then Inr (uintLE n v) else Inl RangeError)"

text \<open>
  A JavaScript number is an IEEE-754 double. Every natural number up to \<open>2^53\<close> is a
  double; a larger one is rounded to the nearest double, ties to the even mantissa.
  \<open>round_to_double\<close> is that rounding on natural numbers, \<open>js_increment\<close> is \<open>n++\<close>.
\<close>

fun bit_length :: "nat \<Rightarrow> nat" where
  "bit_length n = (if n = 0 then 0 else Suc (bit_length (n div 2)))"

declare bit_length.simps [simp del]

definition round_to_double :: "nat \<Rightarrow> nat" where
  "round_to_double n =
     (if n \<le> 2 ^ 53 then n
      else let e = bit_length n - 53; q = n div 2 ^ e; r = n mod 2 ^ e; h = 2 ^ (e - 1)
           in if r < h \<or> (r = h \<and> even q) then q * 2 ^ e else (q + 1) * 2 ^ e)"

definition js_increment :: "nat \<Rightarrow> nat" where
  "js_increment n = round_to_double (n + 1)"

section \<open>Chacha20Cipher (src/support/chacha20.ts)\<close>

text \<open>
  The ChaCha20-Poly1305 primitive comes from the library \<open>@noble/ciphers\<close>; the model
  takes its two operations as a parameter. Each of them may raise (a key or a nonce of
  the wrong length, an authentication tag that does not verify).
\<close>

record aead =
  aead_seal :: "Buffer \<Rightarrow> Buffer \<Rightarrow> Buffer option \<Rightarrow> Buffer \<Rightarrow> error + Buffer"
  aead_open :: "Buffer \<Rightarrow> Buffer \<Rightarrow> Buffer option \<Rightarrow> Buffer \<Rightarrow> error + Buffer"

definition NONCE_LENGTH :: nat where "NONCE_LENGTH = 12"
definition AUTH_TAG_LENGTH :: nat where "AUTH_TAG_LENGTH = 16"

record Chacha20Cipher =
  outCounter :: nat
  inCounter :: nat
  nonceLength :: nat
  outKey :: Buffer
  inKey :: Buffer

definition new_Chacha20Cipher :: "Buffer \<Rightarrow> Buffer \<Rightarrow> nat \<Rightarrow> Chacha20Cipher" where
  "new_Chacha20Cipher ok ik nl =
     \<lparr>outCounter = 0, inCounter = 0, nonceLength = nl, outKey = ok, inKey = ik\<rparr>"

definition new_Chacha20Cipher8byteNonce :: "Buffer \<Rightarrow> Buffer \<Rightarrow> Chacha20Cipher" where
  "new_Chacha20Cipher8byteNonce ok ik = new_Chacha20Cipher ok ik 8"

definition buildNonce :: "Chacha20Cipher \<Rightarrow> nat \<Rightarrow> error + Buffer" where
  \<comment> \<open>\<open>writeBigUInt64LE\<close> raises on a counter that does not fit 64 bits\<close>
  "buildNonce c counter =
     (case writeUIntLE 8 counter of
        Inl e \<Rightarrow> Inl e
      | Inr le \<Rightarrow>
          if nonceLength c = NONCE_LENGTH then Inr (le @ replicate 4 0)
          else Inr (replicate 4 0 @ le))"

definition outNonce :: "Chacha20Cipher \<Rightarrow> error + Buffer" where
  "outNonce c = buildNonce c (outCounter c)"

definition inNonce :: "Chacha20Cipher \<Rightarrow> error + Buffer" where
  "inNonce c = buildNonce c (inCounter c)"

definition padNonce :: "Buffer \<Rightarrow> Buffer" where
  "padNonce nonce =
     (if length nonce \<ge> NONCE_LENGTH then nonce
      else replicate (NONCE_LENGTH - length nonce) 0 @ nonce)"

text \<open>The optional \<open>nonce\<close> argument: absent, a string label, or a buffer.\<close>

datatype nonce_arg = NonceString string | NonceBuffer Buffer

text \<open>
  \<open>encrypt\<close> and \<open>decrypt\<close> return the cipher object as the call leaves it, together
  with the result or the exception raised. The counter is advanced before the primitive
  runs, so it stays advanced when the primitive raises.
\<close>

definition encrypt ::
  "aead \<Rightarrow> Chacha20Cipher \<Rightarrow> Buffer \<Rightarrow> nonce_arg option \<Rightarrow> Buffer option
     \<Rightarrow> Chacha20Cipher \<times> (error + Buffer)" where
  "encrypt L c data nonce aad =
     (case nonce of
        None \<Rightarrow>
          (case outNonce c of
             Inl e \<Rightarrow> (c, Inl e)
           | Inr nonceBuffer \<Rightarrow>
               (c\<lparr>outCounter := js_increment (outCounter c)\<rparr>,
                aead_seal L (outKey c) nonceBuffer aad data))
      | Some (NonceString s) \<Rightarrow> (c, aead_seal L (outKey c) (padNonce (utf8 s)) aad data)
      | Some (NonceBuffer b) \<Rightarrow> (c, aead_seal L (outKey c) (padNonce b) aad data))"

definition decrypt ::
  "aead \<Rightarrow> Chacha20Cipher \<Rightarrow> Buffer \<Rightarrow> nonce_arg option \<Rightarrow> Buffer option
     \<Rightarrow> Chacha20Cipher \<times> (error + Buffer)" where
  "decrypt L c data nonce aad =
     (case nonce of
        None \<Rightarrow>
          (case inNonce c of
             Inl e \<Rightarrow> (c, Inl e)
           | Inr nonceBuffer \<Rightarrow>
               (c\<lparr>inCounter := js_increment (inCounter c)\<rparr>,
                aead_open L (inKey c) nonceBuffer aad data))
      | Some (NonceString s) \<Rightarrow> (c, aead_open L (inKey c) (padNonce (utf8 s)) aad data)
      | Some (NonceBuffer b) \<Rightarrow> (c, aead_open L (inKey c) (padNonce b) aad data))"

text \<open>
  An instance of the library interface for closed examples: the sealed text is the plain
  text followed by sixteen zero bytes, and opening checks and removes them.
\<close>

definition sample_aead :: aead where
  "sample_aead =
     \<lparr>aead_seal = (\<lambda>key nonce aad pt. Inr (pt @ replicate 16 0)),
      aead_open = (\<lambda>key nonce aad ct.
         if length ct \<ge> 16 \<and> drop (length ct - 16) ct = replicate 16 0
         then Inr (take (length ct - 16) ct) else Inl LibraryError)\<rparr>"

section \<open>CompanionConnection (protocol/connection.ts, in unnamed/part_002)\<close>

text \<open>The frame types of the transport, with the numbers the enumeration gives them.\<close>

datatype FrameType =
    Unknown | NoOp | PS_Start | PS_Next | PV_Start | PV_Next
  | U_OPACK | E_OPACK | P_OPACK | PA_Req | PA_Rsp
  | SessionStartRequest | SessionStartResponse | SessionData
  | FamilyIdentityRequest | FamilyIdentityResponse | FamilyIdentityUpdate

fun FrameType_value :: "FrameType \<Rightarrow> nat" where
  "FrameType_value Unknown = 0"
| "FrameType_value NoOp = 1"
| "FrameType_value PS_Start = 3"
| "FrameType_value PS_Next = 4"
| "FrameType_value PV_Start = 5"
| "FrameType_value PV_Next = 6"
| "FrameType_value U_OPACK = 7"
| "FrameType_value E_OPACK = 8"
| "FrameType_value P_OPACK = 9"
| "FrameType_value PA_Req = 10"
| "FrameType_value PA_Rsp = 11"
| "FrameType_value SessionStartRequest = 16"
| "FrameType_value SessionStartResponse = 17"
| "FrameType_value SessionData = 18"
| "FrameType_value FamilyIdentityRequest = 32"
| "FrameType_value FamilyIdentityResponse = 33"
| "FrameType_value FamilyIdentityUpdate = 34"

text \<open>
  \<open>types.ts\<close> declares a second enumeration of the same name. Neither the connection
  nor the protocol layer imports it: both take \<open>FrameType\<close> from \<open>connection.ts\<close>.
\<close>

datatype types_FrameType =
    NoOp_t | PS_Start_t | PS_Next_t | PV_Start_t | PV_Next_t
  | U_OPACK_t | E_OPACK_t | P_OPACK_t | PA_Req_t | PA_Rsp_t | SessionData_t
  | FamilyIdentityRequest_t | FamilyIdentityResponse_t | FamilyIdentityUpdate_t

fun types_FrameType_value :: "types_FrameType \<Rightarrow> nat" where
  "types_FrameType_value NoOp_t = 0x00"
| "types_FrameType_value PS_Start_t = 0x03"
| "types_FrameType_value PS_Next_t = 0x04"
| "types_FrameType_value PV_Start_t = 0x05"
| "types_FrameType_value PV_Next_t = 0x06"
| "types_FrameType_value U_OPACK_t = 0x07"
| "types_FrameType_value E_OPACK_t = 0x08"
| "types_FrameType_value P_OPACK_t = 0x09"
| "types_FrameType_value PA_Req_t = 0x0a"
| "types_FrameType_value PA_Rsp_t = 0x0b"
| "types_FrameType_value SessionData_t = 0x0c"
| "types_FrameType_value FamilyIdentityRequest_t = 0x0d"
| "types_FrameType_value FamilyIdentityResponse_t = 0x0e"
| "types_FrameType_value FamilyIdentityUpdate_t = 0x0f"

definition HEADER_LENGTH :: nat where "HEADER_LENGTH = 4"

text \<open>
  The connection object. An open socket is the list of the buffers written to it so far;
  \<open>None\<close> is the \<open>null\<close> socket of a connection that is not open.
\<close>

record CompanionConnection =
  socket :: "Buffer list option"
  buffer :: Buffer
  chacha :: "Chacha20Cipher option"

definition enableEncryption ::
  "Buffer \<Rightarrow> Buffer \<Rightarrow> CompanionConnection \<Rightarrow> CompanionConnection" where
  "enableEncryption outputKey inputKey conn =
     conn\<lparr>chacha := Some (new_Chacha20Cipher outputKey inputKey 12)\<rparr>"

definition send ::
  "aead \<Rightarrow> FrameType \<Rightarrow> Buffer \<Rightarrow> CompanionConnection
     \<Rightarrow> CompanionConnection \<times> (error + unit)" where
  "send L frameType data conn =
     (case socket conn of
        None \<Rightarrow> (conn, Inl (Error ''Not connected''))
      | Some written \<Rightarrow>
          let payloadLength =
                (if chacha conn \<noteq> None \<and> length data > 0
                 then length data + AUTH_TAG_LENGTH else length data)
          in (case writeUIntBE ((replicate HEADER_LENGTH 0)[0 := of_nat (FrameType_value frameType)])
                     payloadLength 1 3 of
                Inl e \<Rightarrow> (conn, Inl e)
              | Inr header \<Rightarrow>
                  (case chacha conn of
                     Some ch \<Rightarrow>
                       if length data > 0 then
                         (case encrypt L ch data None (Some header) of
                            (ch', Inl e) \<Rightarrow> (conn\<lparr>chacha := Some ch'\<rparr>, Inl e)
                          | (ch', Inr payload) \<Rightarrow>
                              (conn\<lparr>chacha := Some ch',
                                    socket := Some (written @ [header @ payload])\<rparr>, Inr ()))
                       else (conn\<lparr>socket := Some (written @ [header @ data])\<rparr>, Inr ())
                   | None \<Rightarrow> (conn\<lparr>socket := Some (written @ [header @ data])\<rparr>, Inr ()))))"

section \<open>TLV8 (src/support/tlv8.ts)\<close>

text \<open>
  \<open>TlvData\<close> is a JavaScript \<open>Map<number, Buffer>\<close>: an association list in insertion
  order. \<open>Map_get\<close>, \<open>Map_has\<close> and \<open>Map_set\<close> are the operations of \<open>Map\<close>; setting a
  key that is present replaces its value in place, a new key is appended.
\<close>

type_synonym TlvData = "(nat \<times> Buffer) list"

definition Map_get :: "('k \<times> 'v) list \<Rightarrow> 'k \<Rightarrow> 'v option" where
  "Map_get m k = map_of m k"

definition Map_has :: "('k \<times> 'v) list \<Rightarrow> 'k \<Rightarrow> bool" where
  "Map_has m k = (map_of m k \<noteq> None)"

fun Map_set :: "('k \<times> 'v) list \<Rightarrow> 'k \<Rightarrow> 'v \<Rightarrow> ('k \<times> 'v) list" where
  "Map_set [] k v = [(k, v)]"
| "Map_set (p # ps) k v = (if fst p = k then (k, v) # ps else p # Map_set ps k v)"

text \<open>The values of the enumeration \<open>TlvValue\<close> that the pairing code uses.\<close>

definition TlvValue_Identifier :: nat where "TlvValue_Identifier = 0x01"
definition TlvValue_PublicKey :: nat where "TlvValue_PublicKey = 0x03"
definition TlvValue_Signature :: nat where "TlvValue_Signature = 0x0a"

text \<open>
  The body of the loop of \<open>readTlv\<close> after the slice is taken: the value is
  concatenated with the one already stored under the tag, or stored as it is.
\<close>

definition tlv_store :: "TlvData \<Rightarrow> nat \<Rightarrow> Buffer \<Rightarrow> TlvData" where
  "tlv_store result tag val =
     (if Map_has result tag
      then Map_set result tag (the (Map_get result tag) @ val)
      else Map_set result tag val)"

text \<open>
  \<open>readTlv\<close>. Nothing in the loop raises. Where the length byte is missing,
  \<open>data[pos + 1]\<close> is \<open>undefined\<close>: the slice \<open>subarray(pos + 2, NaN)\<close> is empty and
  \<open>pos\<close> becomes \<open>NaN\<close>, so the loop stores an empty value and ends. Where the value is
  shorter than the length says, \<open>subarray\<close> returns the bytes that are there.
\<close>

function readTlv_loop :: "Buffer \<Rightarrow> nat \<Rightarrow> TlvData \<Rightarrow> TlvData" where
  "readTlv_loop data pos result =
     (if pos < length data then
        (if pos + 1 < length data then
           readTlv_loop data (pos + 2 + unat (data ! (pos + 1)))
             (tlv_store result (unat (data ! pos))
                (subarray data (pos + 2) (pos + 2 + unat (data ! (pos + 1)))))
         else tlv_store result (unat (data ! pos)) [])
      else result)"
  by pat_completeness auto
termination
  by (relation "measure (\<lambda>(data, pos, result). length data - pos)") auto

declare readTlv_loop.simps [simp del]

definition readTlv :: "Buffer \<Rightarrow> TlvData" where
  "readTlv data = readTlv_loop data 0 []"

text \<open>
  \<open>writeTlv\<close>. The inner \<open>while\<close> loop runs on \<open>pos\<close> and \<open>remaining\<close>; a result
  \<open>None\<close> stands for a loop that does not end.
\<close>

partial_function (option) writeTlv_loop ::
  "nat \<Rightarrow> Buffer \<Rightarrow> nat \<Rightarrow> nat \<Rightarrow> Buffer list \<Rightarrow> Buffer list option" where
  "writeTlv_loop tag valueBuffer pos remaining chunks =
     (if remaining > 0 \<or> pos = 0 then
        (let chunkSize = min remaining 255;
             chunk = subarray valueBuffer pos (pos + chunkSize);
             chunks' = chunks @ [ [of_nat tag, of_nat chunkSize]]
                         @ (if chunkSize > 0 then [chunk] else [])
         in if length valueBuffer = 0 then Some chunks'
            else writeTlv_loop tag valueBuffer (pos + chunkSize) (remaining - chunkSize) chunks')
      else Some chunks)"

declare writeTlv_loop.simps [code]

fun writeTlv_entries :: "TlvData \<Rightarrow> Buffer list \<Rightarrow> Buffer list option" where
  "writeTlv_entries [] chunks = Some chunks"
| "writeTlv_entries ((key, val) # entries) chunks =
     (case writeTlv_loop key val 0 (length val) chunks of
        None \<Rightarrow> None
      | Some chunks' \<Rightarrow> writeTlv_entries entries chunks')"

definition writeTlv :: "TlvData \<Rightarrow> Buffer option" where
  "writeTlv data = map_option concat (writeTlv_entries data [])"

text \<open>
  A buffer is complete when it is a sequence of whole triples: at every triple boundary
  either nothing is left, or at least two bytes and then at least as many bytes as the
  length byte says. A buffer that is not complete contains a truncated triple.
\<close>

fun tlv_complete :: "Buffer \<Rightarrow> bool" where
  "tlv_complete [] = True"
| "tlv_complete [t] = False"
| "tlv_complete (t # l # rest) = (unat l \<le> length rest \<and> tlv_complete (drop (unat l) rest))"

text \<open>The loop of \<open>readTlv\<close> on the bytes from \<open>pos\<close> on, as a recursion on that suffix.\<close>

fun read_suffix :: "Buffer \<Rightarrow> TlvData \<Rightarrow> TlvData" where
  "read_suffix [] result = result"
| "read_suffix [t] result = tlv_store result (unat t) []"
| "read_suffix (t # l # rest) result =
     read_suffix (drop (unat l) rest) (tlv_store result (unat t) (take (unat l) rest))"

section \<open>SRPAuthHandler and HapCredentials (auth/srp.ts, auth/credentials.ts, in unnamed/part_000)\<close>

text \<open>
  The primitives of \<open>support/crypto.ts\<close> (in \<open>src/support/chacha20.ts\<close>) wrap the libraries \<open>@noble/curves\<close> and
  \<open>@noble/hashes\<close>; the model takes them as a parameter. \<open>ed25519Verify\<close> catches
  every exception of the library and returns \<open>false\<close>; the key exchange and the signing
  may raise.
\<close>

record crypto =
  x25519SharedSecret :: "Buffer \<Rightarrow> Buffer \<Rightarrow> error + Buffer"
  hkdfExpand :: "string \<Rightarrow> string \<Rightarrow> Buffer \<Rightarrow> Buffer"
  ed25519Verify :: "Buffer \<Rightarrow> Buffer \<Rightarrow> Buffer \<Rightarrow> bool"
  ed25519Sign :: "Buffer \<Rightarrow> Buffer \<Rightarrow> error + Buffer"
  chacha20poly1305 :: aead

record HapCredentials =
  ltpk :: Buffer
  ltsk :: Buffer
  atvId :: Buffer
  clientId :: Buffer

record KeyPair =
  privateKey :: Buffer
  publicKey :: Buffer

text \<open>
  \<open>uuidv4()\<close> of the package \<open>uuid\<close> (not part of the repository), after its
  documentation and RFC 4122: sixteen random bytes, the version and variant bits set, in
  the textual form of 32 lower-case hexadecimal digits in groups of 8-4-4-4-12 separated
  by dashes. The random bytes are a parameter, given by index.
\<close>

definition hex_digit :: "nat \<Rightarrow> char" where
  "hex_digit n = ''0123456789abcdef'' ! (n mod 16)"

definition byte_hex :: "byte \<Rightarrow> string" where
  "byte_hex b = [hex_digit (unat b div 16), hex_digit (unat b mod 16)]"

definition toString_hex :: "Buffer \<Rightarrow> string" where
  "toString_hex buf = concat (map byte_hex buf)"

definition uuidv4 :: "(nat \<Rightarrow> byte) \<Rightarrow> string" where
  "uuidv4 rnds =
     (let b = (\<lambda>i. if i = 6 then (rnds 6 AND 0x0f) OR 0x40
                    else if i = 8 then (rnds 8 AND 0x3f) OR 0x80
                    else rnds i)
      in toString_hex (map b [0, 1, 2, 3]) @ ''-'' @ toString_hex (map b [4, 5]) @ ''-''
           @ toString_hex (map b [6, 7]) @ ''-'' @ toString_hex (map b [8, 9]) @ ''-''
           @ toString_hex (map b [10, 11, 12, 13, 14, 15]))"

text \<open>
  The handler object. The fields of the SRP steps 1 to 3 (\<open>srpClient\<close>, \<open>srpSession\<close>,
  \<open>pin\<close>, \<open>srpEphemeral\<close>) are left out: \<open>verify1\<close> and \<open>step4\<close> do not read them.
  \<open>pairingId\<close> is \<open>readonly\<close>: only the constructor writes it.
\<close>

record SRPAuthHandler =
  pairingId :: Buffer
  signingKey :: "KeyPair option"
  verifyKey :: "KeyPair option"
  sessionKey :: "Buffer option"
  sharedSecret :: "Buffer option"

definition new_SRPAuthHandler :: "(nat \<Rightarrow> byte) \<Rightarrow> SRPAuthHandler" where
  "new_SRPAuthHandler rnds =
     \<lparr>pairingId = utf8 (uuidv4 rnds), signingKey = None, verifyKey = None,
      sessionKey = None, sharedSecret = None\<rparr>"

text \<open>
  \<open>verify1\<close> returns the handler as the call leaves it and the encrypted M3 data or the
  exception raised; \<open>None\<close> stands for a call that does not return (the loop of
  \<open>writeTlv\<close>).
\<close>

definition verify1 ::
  "crypto \<Rightarrow> SRPAuthHandler \<Rightarrow> HapCredentials \<Rightarrow> Buffer \<Rightarrow> Buffer
     \<Rightarrow> (SRPAuthHandler \<times> (error + Buffer)) option" where
  "verify1 C h credentials sessionPubKey encrypted =
     (case verifyKey h of
        None \<Rightarrow> Some (h, Inl (Error ''Keys not initialized''))
      | Some vk \<Rightarrow>
          (case x25519SharedSecret C (privateKey vk) sessionPubKey of
             Inl e \<Rightarrow> Some (h, Inl e)
           | Inr shared \<Rightarrow>
               let h' = h\<lparr>sharedSecret := Some shared\<rparr>;
                   sessionKey = hkdfExpand C ''Pair-Verify-Encrypt-Salt''
                                  ''Pair-Verify-Encrypt-Info'' shared;
                   chacha = new_Chacha20Cipher8byteNonce sessionKey sessionKey
               in (case decrypt (chacha20poly1305 C) chacha encrypted
                          (Some (NonceString ''PV-Msg02'')) None of
                    (chacha', Inl e) \<Rightarrow> Some (h', Inl e)
                  | (chacha', Inr plain) \<Rightarrow>
                      let decryptedTlv = readTlv plain
                      in (case (Map_get decryptedTlv TlvValue_Identifier,
                                Map_get decryptedTlv TlvValue_Signature) of
                           (Some identifier, Some signature) \<Rightarrow>
                             if identifier \<noteq> atvId credentials then
                               Some (h', Inl (AuthenticationError ''Incorrect device response''))
                             else if \<not> ed25519Verify C (ltpk credentials)
                                         (sessionPubKey @ identifier @ publicKey vk) signature then
                               Some (h', Inl (AuthenticationError ''Signature verification failed''))
                             else
                               (case ed25519Sign C (ltsk credentials)
                                       (publicKey vk @ clientId credentials @ sessionPubKey) of
                                  Inl e \<Rightarrow> Some (h', Inl e)
                                | Inr deviceSignature \<Rightarrow>
                                    (case writeTlv [(TlvValue_Identifier, clientId credentials),
                                                    (TlvValue_Signature, deviceSignature)] of
                                       None \<Rightarrow> None
                                     | Some tlv \<Rightarrow>
                                         Some (h', snd (encrypt (chacha20poly1305 C) chacha' tlv
                                                          (Some (NonceString ''PV-Msg03'')) None))))
                         | _ \<Rightarrow>
                             Some (h', Inl (AuthenticationError
                                              ''Missing identifier or signature in response''))))))"

text \<open>
  The first half of \<open>verify1\<close>, up to \<open>readTlv\<close>: the verify key pair of the handler and
  the TLV that the device sent encrypted, where the keys are there and the key exchange
  and the decryption succeed.
\<close>

definition verify1_decryptedTlv ::
  "crypto \<Rightarrow> SRPAuthHandler \<Rightarrow> Buffer \<Rightarrow> Buffer \<Rightarrow> (KeyPair \<times> TlvData) option" where
  "verify1_decryptedTlv C h sessionPubKey encrypted =
     (case verifyKey h of
        None \<Rightarrow> None
      | Some vk \<Rightarrow>
          (case x25519SharedSecret C (privateKey vk) sessionPubKey of
             Inl e \<Rightarrow> None
           | Inr shared \<Rightarrow>
               let sessionKey = hkdfExpand C ''Pair-Verify-Encrypt-Salt''
                                  ''Pair-Verify-Encrypt-Info'' shared;
                   chacha = new_Chacha20Cipher8byteNonce sessionKey sessionKey
               in (case snd (decrypt (chacha20poly1305 C) chacha encrypted
                               (Some (NonceString ''PV-Msg02'')) None) of
                     Inl e \<Rightarrow> None
                   | Inr plain \<Rightarrow> Some (vk, readTlv plain))))"

definition step4 :: "crypto \<Rightarrow> SRPAuthHandler \<Rightarrow> Buffer \<Rightarrow> error + HapCredentials" where
  "step4 C h encryptedData =
     (case (sessionKey h, signingKey h) of
        (Some sk, Some sgk) \<Rightarrow>
          let chacha = new_Chacha20Cipher8byteNonce sk sk
          in (case snd (decrypt (chacha20poly1305 C) chacha encryptedData
                          (Some (NonceString ''PS-Msg06'')) None) of
                Inl e \<Rightarrow> Inl e
              | Inr decryptedTlvBytes \<Rightarrow>
                  if length decryptedTlvBytes = 0 then
                    Inl (AuthenticationError ''Data decrypt failed'')
                  else
                    let decryptedTlv = readTlv decryptedTlvBytes
                    in (case (Map_get decryptedTlv TlvValue_Identifier,
                              Map_get decryptedTlv TlvValue_PublicKey) of
                          (Some atvIdentifier, Some atvPubKey) \<Rightarrow>
                            Inr \<lparr>ltpk = atvPubKey, ltsk = privateKey sgk,
                                 atvId = atvIdentifier, clientId = pairingId h\<rparr>
                        | _ \<Rightarrow>
                            Inl (AuthenticationError
                                   ''Missing identifier or public key in response'')))
      | _ \<Rightarrow> Inl (Error ''Session key not established''))"

text \<open>
  An instance of the primitives for closed examples: a signature is the key followed by
  the message, the shared secret is the two keys one after the other, and the derived key
  is the input key material.
\<close>

definition sample_crypto :: crypto where
  "sample_crypto =
     \<lparr>x25519SharedSecret = (\<lambda>priv pub. Inr (priv @ pub)),
      hkdfExpand = (\<lambda>salt info ikm. ikm),
      ed25519Verify = (\<lambda>pk msg sig. sig = pk @ msg),
      ed25519Sign = (\<lambda>sk msg. Inr (sk @ msg)),
      chacha20poly1305 = sample_aead\<rparr>"

text \<open>
  A second instance, in which the sealed text depends on the key: the tag is the first
  sixteen bytes of the key, padded with zeros, and opening under another key raises the
  plain \<open>Error\<close> that the library raises for a tag that does not verify.
\<close>

definition keyed_tag :: "Buffer \<Rightarrow> Buffer" where
  "keyed_tag key = take 16 (key @ replicate 16 0)"

definition keyed_aead :: aead where
  "keyed_aead =
     \<lparr>aead_seal = (\<lambda>key nonce aad pt. Inr (pt @ keyed_tag key)),
      aead_open = (\<lambda>key nonce aad ct.
         if length ct \<ge> 16 \<and> drop (length ct - 16) ct = keyed_tag key
         then Inr (take (length ct - 16) ct) else Inl (Error ''invalid tag''))\<rparr>"

definition keyed_crypto :: crypto where
  "keyed_crypto = sample_crypto\<lparr>chacha20poly1305 := keyed_aead\<rparr>"

section \<open>OPACK (support/opack.ts, in src/support/chacha20.ts)\<close>

text \<open>
  The values that \<open>pack\<close> is given and that \<open>unpack\<close> returns. A number is
  \<open>ONumber\<close> when it is integer-valued (\<open>Number.isInteger\<close>), with \<open>-0\<close> as \<open>0\<close>, and
  otherwise \<open>OFloat\<close> of the bits of its IEEE-754 binary64 form, with one bit pattern for
  \<open>NaN\<close>. \<open>OBuffer\<close> is a \<open>Buffer\<close> or \<open>Uint8Array\<close>, \<open>OUuid\<close> a \<open>Uint8Array\<close> that has a
  \<open>uuid\<close> property, \<open>OObject\<close> a plain object with the entries in the order of
  \<open>Object.entries\<close>, and \<open>OOther\<close> any value of another kind (a \<open>Set\<close>, a function),
  with the name in the message of the \<open>TypeError\<close>. A string is the list of the bytes of
  its UTF-8 form, so a string with an unpaired surrogate, and the replacement character
  that decoding ill-formed UTF-8 gives, are outside the model. The value and the size of
  a \<open>SizedInt\<close> are taken to be integers.
\<close>

datatype opack =
    ONull
  | OUndefined
  | OBool bool
  | ONumber int
  | OFloat "64 word"
  | OSizedInt int nat
  | OString string
  | OBuffer Buffer
  | OUuid Buffer
  | ODate
  | OArray "opack list"
  | OObject "(string \<times> opack) list"
  | OOther string

definition writeUIntLE_int :: "nat \<Rightarrow> int \<Rightarrow> error + Buffer" where
  \<comment> \<open>\<open>writeUInt8\<close>, \<open>writeUInt16LE\<close>, \<open>writeUInt32LE\<close>, \<open>writeBigUInt64LE(BigInt(value))\<close>\<close>
  "writeUIntLE_int n v =
     (if 0 \<le> v \<and> v < 2 ^ (8 * n) then Inr (uintLE n (nat v)) else Inl RangeError)"

definition tagged :: "byte \<Rightarrow> error + Buffer \<Rightarrow> error + Buffer" where
  "tagged t r = (case r of Inl e \<Rightarrow> Inl e | Inr b \<Rightarrow> Inr (t # b))"

definition packInteger :: "int \<Rightarrow> nat option \<Rightarrow> error + Buffer" where
  \<comment> \<open>\<open>!sizeHint\<close> holds for \<open>null\<close> and for the size \<open>0\<close>\<close>
  "packInteger v sizeHint =
     (let noHint = (sizeHint = None \<or> sizeHint = Some 0) in
      if v < 0x28 \<and> noHint then Inr [word_of_int (v + 8)]
      else if (v \<le> 0xff \<and> noHint) \<or> sizeHint = Some 1 then tagged 0x30 (writeUIntLE_int 1 v)
      else if (v \<le> 0xffff \<and> noHint) \<or> sizeHint = Some 2 then tagged 0x31 (writeUIntLE_int 2 v)
      else if (v \<le> 0xffffffff \<and> noHint) \<or> sizeHint = Some 4 then
        tagged 0x32 (writeUIntLE_int 4 v)
      else tagged 0x33 (writeUIntLE_int 8 v))"

definition packString :: "string \<Rightarrow> error + Buffer" where
  "packString s =
     (let encoded = utf8 s; len = length encoded in
      if len \<le> 0x20 then Inr (of_nat (0x40 + len) # encoded)
      else if len \<le> 0xff then Inr (0x61 # uintLE 1 len @ encoded)
      else if len \<le> 0xffff then Inr (0x62 # uintLE 2 len @ encoded)
      else if len \<le> 0xffffff then Inr (0x63 # uintLE 3 len @ encoded)
      else (case writeUIntLE 4 len of
              Inl e \<Rightarrow> Inl e
            | Inr l \<Rightarrow> Inr (0x64 # l @ encoded)))"

definition packBytes :: "Buffer \<Rightarrow> error + Buffer" where
  "packBytes buf =
     (let len = length buf in
      if len \<le> 0x20 then Inr (of_nat (0x70 + len) # buf)
      else if len \<le> 0xff then Inr (0x91 # uintLE 1 len @ buf)
      else if len \<le> 0xffff then Inr (0x92 # uintLE 2 len @ buf)
      else if len \<le> 0xffffffff then Inr (0x93 # uintLE 4 len @ buf)
      else (case writeUIntLE 8 len of
              Inl e \<Rightarrow> Inl e
            | Inr l \<Rightarrow> Inr (0x94 # l @ buf)))"

fun findIndex :: "('a \<Rightarrow> bool) \<Rightarrow> 'a list \<Rightarrow> nat option" where
  \<comment> \<open>\<open>None\<close> is the \<open>-1\<close> of \<open>Array.prototype.findIndex\<close>\<close>
  "findIndex p [] = None"
| "findIndex p (x # xs) =
     (if p x then Some 0 else (case findIndex p xs of None \<Rightarrow> None | Some i \<Rightarrow> Some (Suc i)))"

text \<open>
  The end of \<open>packInternal\<close>, "object reference deduplication": an encoding that is in
  \<open>objectList\<close> is replaced by a reference to its index, any other encoding longer than
  one byte is appended to \<open>objectList\<close>. This runs for every value, whatever its kind.
\<close>

definition deduplicate :: "Buffer \<Rightarrow> Buffer list \<Rightarrow> Buffer \<times> Buffer list" where
  "deduplicate packedBytes objectList =
     (case findIndex (\<lambda>buf. buf = packedBytes) objectList of
        Some existingIndex \<Rightarrow>
          (if existingIndex < 0x21 then ([of_nat (0xa0 + existingIndex)], objectList)
           else if existingIndex \<le> 0xff then (0xc1 # uintLE 1 existingIndex, objectList)
           else if existingIndex \<le> 0xffff then (0xc2 # uintLE 2 existingIndex, objectList)
           else if existingIndex \<le> 0xffffffff then (0xc3 # uintLE 4 existingIndex, objectList)
           else (packedBytes, objectList))
      | None \<Rightarrow>
          (if length packedBytes > 1 then (packedBytes, objectList @ [packedBytes])
           else (packedBytes, objectList)))"

definition deduplicated :: "error + Buffer \<Rightarrow> Buffer list \<Rightarrow> error + Buffer \<times> Buffer list" where
  "deduplicated r objectList =
     (case r of Inl e \<Rightarrow> Inl e | Inr packedBytes \<Rightarrow> Inr (deduplicate packedBytes objectList))"

definition counted :: "byte \<Rightarrow> nat \<Rightarrow> Buffer list \<Rightarrow> Buffer" where
  \<comment> \<open>the encoding of an array (\<open>0xd0\<close>) or a dictionary (\<open>0xe0\<close>) of \<open>n\<close> entries\<close>
  "counted base n items =
     (let result = (base + of_nat (min n 0xf)) # concat items
      in if n \<ge> 0xf then result @ [0x03] else result)"

text \<open>
  The test \<open>data.constructor !== Object\<close> on an object. A plain object passes it unless
  it has an own property \<open>constructor\<close>, whose value is then what the test reads (the
  function \<open>Object\<close> itself is not a value of the model). The \<open>TypeError\<close> is built from
  \<open>data.constructor.name\<close>: reading it from \<open>null\<close> or \<open>undefined\<close> raises a
  \<open>TypeError\<close> of its own; the text after the colon is spelled out where that property
  is absent or a string.
\<close>

definition apostrophe :: string where
  "apostrophe = [CHR 0x27]"

definition constructor_TypeError :: "opack \<Rightarrow> error" where
  "constructor_TypeError c =
     (case c of
        ONull \<Rightarrow>
          TypeError (''Cannot read properties of null (reading '' @ apostrophe @ ''name''
                       @ apostrophe @ '')'')
      | OUndefined \<Rightarrow>
          TypeError (''Cannot read properties of undefined (reading '' @ apostrophe @ ''name''
                       @ apostrophe @ '')'')
      | OObject entries \<Rightarrow>
          (case map_of entries ''name'' of
             Some (OString s) \<Rightarrow> TypeError (''Unsupported type: '' @ s)
           | _ \<Rightarrow> TypeError ''Unsupported type: undefined'')
      | OOther name \<Rightarrow> TypeError (''Unsupported type: '' @ name)
      | _ \<Rightarrow> TypeError ''Unsupported type: undefined'')"

text \<open>
  \<open>packInternal\<close> with \<open>packArray\<close> and \<open>packDict\<close>. The key of a dictionary entry goes
  through \<open>packInternal\<close> as a string.
\<close>

fun packInternal :: "opack \<Rightarrow> Buffer list \<Rightarrow> error + Buffer \<times> Buffer list"
  and packArray_items :: "opack list \<Rightarrow> Buffer list \<Rightarrow> error + Buffer list \<times> Buffer list"
  and packDict_items :: "(string \<times> opack) list \<Rightarrow> Buffer list \<Rightarrow> error + Buffer list \<times> Buffer list"
where
  "packInternal ONull objectList = deduplicated (Inr [0x04]) objectList"
| "packInternal OUndefined objectList = deduplicated (Inr [0x04]) objectList"
| "packInternal (OBool b) objectList =
     deduplicated (Inr [if b then 0x01 else 0x02]) objectList"
| "packInternal ODate objectList = Inl (TypeError ''Packing datetime objects is not supported'')"
| "packInternal (OUuid u) objectList = deduplicated (Inr (0x05 # u)) objectList"
| "packInternal (OSizedInt v sz) objectList =
     deduplicated (packInteger v (Some sz)) objectList"
| "packInternal (ONumber n) objectList = deduplicated (packInteger n None) objectList"
| "packInternal (OFloat w) objectList =
     deduplicated (Inr (0x36 # uintLE 8 (unat w))) objectList"
| "packInternal (OString s) objectList = deduplicated (packString s) objectList"
| "packInternal (OBuffer b) objectList = deduplicated (packBytes b) objectList"
| "packInternal (OArray xs) objectList =
     (case packArray_items xs objectList of
        Inl e \<Rightarrow> Inl e
      | Inr (items, objectList') \<Rightarrow>
          deduplicated (Inr (counted 0xd0 (length xs) items)) objectList')"
| "packInternal (OObject entries) objectList =
     (case map_of entries ''constructor'' of
        Some c \<Rightarrow> Inl (constructor_TypeError c)
      | None \<Rightarrow>
          (case packDict_items entries objectList of
             Inl e \<Rightarrow> Inl e
           | Inr (items, objectList') \<Rightarrow>
               deduplicated (Inr (counted 0xe0 (length entries) items)) objectList'))"
| "packInternal (OOther name) objectList = Inl (TypeError (''Unsupported type: '' @ name))"
| "packArray_items [] objectList = Inr ([], objectList)"
| "packArray_items (x # xs) objectList =
     (case packInternal x objectList of
        Inl e \<Rightarrow> Inl e
      | Inr (item, objectList') \<Rightarrow>
          (case packArray_items xs objectList' of
             Inl e \<Rightarrow> Inl e
           | Inr (items, objectList'') \<Rightarrow> Inr (item # items, objectList'')))"
| "packDict_items [] objectList = Inr ([], objectList)"
| "packDict_items ((key, val) # entries) objectList =
     (case deduplicated (packString key) objectList of
        Inl e \<Rightarrow> Inl e
      | Inr (k, objectList') \<Rightarrow>
          (case packInternal val objectList' of
             Inl e \<Rightarrow> Inl e
           | Inr (v, objectList'') \<Rightarrow>
               (case packDict_items entries objectList'' of
                  Inl e \<Rightarrow> Inl e
                | Inr (items, objectList''') \<Rightarrow> Inr (k # v # items, objectList'''))))"

definition pack :: "opack \<Rightarrow> error + Buffer" where
  "pack data = (case packInternal data [] of Inl e \<Rightarrow> Inl e | Inr (packedBytes, _) \<Rightarrow> Inr packedBytes)"

text \<open>
  Numbers read from the wire. \<open>number_of_f64\<close> is \<open>readDoubleLE\<close>: the value of the
  bits, as \<open>ONumber\<close> where it is an integer. \<open>f64_of_f32\<close> widens the bits that
  \<open>readFloatLE\<close> reads. \<open>Number(readBigUInt64LE(..))\<close> rounds to a double.
\<close>

definition number_of_f64 :: "64 word \<Rightarrow> opack" where
  "number_of_f64 w =
     (let negative = bit w 63; e = unat (take_bit 11 (drop_bit 52 w)); m = unat (take_bit 52 w);
          significand = 2 ^ 52 + int m;
          signed = (\<lambda>n. if negative then - n else n)
      in if e = 2047 then (if m = 0 then OFloat w else OFloat 0x7ff8000000000000)
         else if e = 0 then (if m = 0 then ONumber 0 else OFloat w)
         else if e \<ge> 1075 then ONumber (signed (significand * 2 ^ (e - 1075)))
         else if significand mod 2 ^ (1075 - e) = 0
           then ONumber (signed (significand div 2 ^ (1075 - e)))
         else OFloat w)"

definition f64_of_f32 :: "32 word \<Rightarrow> 64 word" where
  "f64_of_f32 w =
     (let sign = (if bit w 31 then 2 ^ 63 else 0 :: nat);
          e = unat (take_bit 8 (drop_bit 23 w)); m = unat (take_bit 23 w)
      in of_nat
           (if e = 255 then sign + 2047 * 2 ^ 52 + m * 2 ^ 29
            else if e = 0 then
              (if m = 0 then sign
               else sign + (bit_length m + 873) * 2 ^ 52
                      + (m - 2 ^ (bit_length m - 1)) * 2 ^ (53 - bit_length m))
            else sign + (e + 896) * 2 ^ 52 + m * 2 ^ 29))"

definition utf8_decode :: "Buffer \<Rightarrow> string" where
  \<comment> \<open>\<open>buf.toString('utf-8')\<close> on well-formed UTF-8\<close>
  "utf8_decode buf = map (\<lambda>b. char_of (unat b)) buf"

text \<open>
  \<open>String(key)\<close>, which names the property of a decoded dictionary. The digits of an
  integer below \<open>10^21\<close> are written out; the text of any other number, and of the
  values that \<open>unpack\<close> never returns, is left to the parameter \<open>host\<close>. An object
  is converted by \<open>Object.prototype.toString\<close>, as one is that has neither an own
  \<open>toString\<close> property nor another prototype.
\<close>

fun digits :: "nat \<Rightarrow> string" where
  "digits n = (if n < 10 then [hex_digit n] else digits (n div 10) @ [hex_digit (n mod 10)])"

declare digits.simps [simp del]

fun hex_digits :: "nat \<Rightarrow> string" where
  \<comment> \<open>\<open>n.toString(16)\<close>\<close>
  "hex_digits n =
     (if n < 16 then [hex_digit n] else hex_digits (n div 16) @ [hex_digit (n mod 16)])"

declare hex_digits.simps [simp del]

definition Number_toString :: "(opack \<Rightarrow> string) \<Rightarrow> int \<Rightarrow> string" where
  "Number_toString host n =
     (if \<bar>n\<bar> < 10 ^ 21 then (if n < 0 then ''-'' @ digits (nat (- n)) else digits (nat n))
      else host (ONumber n))"

fun join :: "string \<Rightarrow> string list \<Rightarrow> string" where
  "join sep [] = []"
| "join sep [x] = x"
| "join sep (x # y # ys) = x @ sep @ join sep (y # ys)"

fun js_String :: "(opack \<Rightarrow> string) \<Rightarrow> opack \<Rightarrow> string" where
  "js_String host ONull = ''null''"
| "js_String host OUndefined = ''undefined''"
| "js_String host (OBool b) = (if b then ''true'' else ''false'')"
| "js_String host (ONumber n) = Number_toString host n"
| "js_String host (OFloat w) = host (OFloat w)"
| "js_String host (OSizedInt v sz) = Number_toString host v"
| "js_String host (OString s) = s"
| "js_String host (OBuffer b) = utf8_decode b"
| "js_String host (OUuid u) = host (OUuid u)"
| "js_String host ODate = host ODate"
| "js_String host (OArray xs) =
     join '','' (map (\<lambda>x. if x = ONull \<or> x = OUndefined then [] else js_String host x) xs)"
| "js_String host (OObject entries) = ''[object Object]''"
| "js_String host (OOther name) = host (OOther name)"

text \<open>
  \<open>output[key] = val\<close> on the plain object that a dictionary is decoded into, with the
  own properties in the order of \<open>Object.entries\<close>: the keys that are array indices
  (the decimal text, without leading zeros, of a number below \<open>2^32 - 1\<close>) in ascending
  order first, then the other keys in the order in which they were first set. The key
  \<open>__proto__\<close> names the accessor of \<open>Object.prototype\<close> and makes no own property
  (the prototype that the accessor sets is not part of an \<open>OObject\<close>).
\<close>

definition digits_value :: "string \<Rightarrow> int" where
  "digits_value s = foldl (\<lambda>n c. 10 * n + (of_char c - 48)) 0 s"

definition array_index :: "string \<Rightarrow> int option" where
  "array_index s =
     (if s \<noteq> [] \<and> list_all (\<lambda>c. c \<in> set ''0123456789'') s
         \<and> (s = ''0'' \<or> hd s \<noteq> CHR ''0'') \<and> digits_value s < 4294967295
      then Some (digits_value s) else None)"

fun insert_index :: "int \<Rightarrow> string \<Rightarrow> 'v \<Rightarrow> (string \<times> 'v) list \<Rightarrow> (string \<times> 'v) list" where
  "insert_index i key val [] = [(key, val)]"
| "insert_index i key val (p # ps) =
     (case array_index (fst p) of
        Some j \<Rightarrow> if j < i then p # insert_index i key val ps else (key, val) # p # ps
      | None \<Rightarrow> (key, val) # p # ps)"

definition Object_set :: "(string \<times> 'v) list \<Rightarrow> string \<Rightarrow> 'v \<Rightarrow> (string \<times> 'v) list" where
  "Object_set output key val =
     (if key = ''__proto__'' then output
      else if map_of output key \<noteq> None then Map_set output key val
      else (case array_index key of
              Some i \<Rightarrow> insert_index i key val output
            | None \<Rightarrow> output @ [(key, val)]))"

text \<open>
  The branches of \<open>unpackInternal\<close> for the tags that are tested before the array tag.
  A branch gives the value, the remaining bytes, the flag \<open>addToObjectList\<close>, and whether
  the value is an object made by this call (a \<open>SizedInt\<close>, a \<open>Buffer\<close>), which
  \<open>objectList.includes\<close> compares by identity and so never finds. \<open>None\<close>: no branch is
  taken. A read past the end of the buffer raises; \<open>subarray\<close> does not.
\<close>

definition rounded :: "error + nat \<Rightarrow> error + nat" where
  "rounded r = (case r of Inl e \<Rightarrow> Inl e | Inr v \<Rightarrow> Inr (round_to_double v))"

definition unpack_scalar :: "byte \<Rightarrow> Buffer \<Rightarrow> (error + opack \<times> Buffer \<times> bool \<times> bool) option" where
  "unpack_scalar tag data =
     (let t = unat tag in
      if t = 0x01 then Some (Inr (OBool True, drop 1 data, False, False))
      else if t = 0x02 then Some (Inr (OBool False, drop 1 data, False, False))
      else if t = 0x04 then Some (Inr (ONull, drop 1 data, False, False))
      else if t = 0x05 then
        Some (Inr (OString (toString_hex (subarray data 1 17)), drop 17 data, True, False))
      else if t = 0x06 then
        Some (case rounded (readUIntLE data 1 8) of
                Inl e \<Rightarrow> Inl e
              | Inr v \<Rightarrow> Inr (ONumber (int v), drop 9 data, True, False))
      else if 0x08 \<le> t \<and> t \<le> 0x2f then
        Some (Inr (ONumber (int t - 8), drop 1 data, False, False))
      else if t = 0x35 then
        Some (case readUIntLE data 1 4 of
                Inl e \<Rightarrow> Inl e
              | Inr v \<Rightarrow> Inr (number_of_f64 (f64_of_f32 (of_nat v)), drop 5 data, True, False))
      else if t = 0x36 then
        Some (case readUIntLE data 1 8 of
                Inl e \<Rightarrow> Inl e
              | Inr v \<Rightarrow> Inr (number_of_f64 (of_nat v), drop 9 data, True, False))
      else if tag AND 0xf0 = 0x30 then
        (let numBytes = 2 ^ unat (tag AND 0xf) in
         Some (case (if numBytes = 1 then readUIntLE data 1 1
                     else if numBytes = 2 then readUIntLE data 1 2
                     else if numBytes = 4 then readUIntLE data 1 4
                     else rounded (readUIntLE data 1 8)) of
                 Inl e \<Rightarrow> Inl e
               | Inr intValue \<Rightarrow>
                   Inr (OSizedInt (int intValue) numBytes, drop (1 + numBytes) data, True, True)))
      else if 0x40 \<le> t \<and> t \<le> 0x60 then
        (let len = t - 0x40 in
         Some (Inr (OString (utf8_decode (subarray data 1 (1 + len))),
                    drop (1 + len) data, True, False)))
      else if 0x60 < t \<and> t \<le> 0x64 then
        (let numBytes = unat (tag AND 0xf) in
         Some (case (if numBytes = 1 then readUIntLE data 1 1
                     else if numBytes = 2 then readUIntLE data 1 2
                     else if numBytes = 3 then readUIntLE data 1 3
                     else readUIntLE data 1 4) of
                 Inl e \<Rightarrow> Inl e
               | Inr len \<Rightarrow>
                   Inr (OString (utf8_decode (subarray data (1 + numBytes) (1 + numBytes + len))),
                        drop (1 + numBytes + len) data, True, False)))
      else if 0x70 \<le> t \<and> t \<le> 0x90 then
        (let len = t - 0x70 in
         Some (Inr (OBuffer (subarray data 1 (1 + len)), drop (1 + len) data, True, True)))
      else if 0x91 \<le> t \<and> t \<le> 0x94 then
        (let numBytes = 2 ^ (unat (tag AND 0xf) - 1) in
         Some (case (if numBytes = 1 then readUIntLE data 1 1
                     else if numBytes = 2 then readUIntLE data 1 2
                     else if numBytes = 4 then readUIntLE data 1 4
                     else rounded (readUIntLE data 1 8)) of
                 Inl e \<Rightarrow> Inl e
               | Inr len \<Rightarrow>
                   Inr (OBuffer (subarray data (1 + numBytes) (1 + numBytes + len)),
                        drop (1 + numBytes + len) data, True, True)))
      else None)"

text \<open>
  The two branches for object references, tested after the dictionary tag.
  \<open>objectList[index]\<close> is \<open>undefined\<close> where the list has no such index.
\<close>

definition at_index :: "opack list \<Rightarrow> nat \<Rightarrow> opack" where
  "at_index objectList index = (if index < length objectList then objectList ! index else OUndefined)"

definition unpack_reference ::
  "byte \<Rightarrow> Buffer \<Rightarrow> opack list \<Rightarrow> (error + opack \<times> Buffer \<times> bool \<times> bool) option" where
  "unpack_reference tag data objectList =
     (let t = unat tag in
      if 0xa0 \<le> t \<and> t \<le> 0xc0 then
        Some (Inr (at_index objectList (t - 0xa0), drop 1 data, True, False))
      else if 0xc1 \<le> t \<and> t \<le> 0xc4 then
        (let numBytes = t - 0xc0 in
         Some (case (if numBytes = 1 then readUIntLE data 1 1
                     else if numBytes = 2 then readUIntLE data 1 2
                     else if numBytes = 3 then readUIntLE data 1 3
                     else readUIntLE data 1 4) of
                 Inl e \<Rightarrow> Inl e
               | Inr index \<Rightarrow>
                   Inr (at_index objectList index, drop (1 + numBytes) data, True, False)))
      else None)"

text \<open>
  The end of \<open>unpackInternal\<close>: the value is appended to \<open>objectList\<close> when
  \<open>addToObjectList\<close> is set and \<open>objectList.includes(value)\<close> is false.
\<close>

definition objectList_includes :: "opack list \<Rightarrow> opack \<Rightarrow> bool \<Rightarrow> bool" where
  "objectList_includes objectList v fresh = (\<not> fresh \<and> v \<in> set objectList)"

definition remember ::
  "error + opack \<times> Buffer \<times> bool \<times> bool \<Rightarrow> opack list \<Rightarrow> error + opack \<times> Buffer \<times> opack list" where
  "remember r objectList =
     (case r of
        Inl e \<Rightarrow> Inl e
      | Inr (v, remaining, addToObjectList, fresh) \<Rightarrow>
          Inr (v, remaining,
               if addToObjectList \<and> \<not> objectList_includes objectList v fresh then objectList @ [v]
               else objectList))"

text \<open>
  \<open>unpackInternal\<close> and its four loops: the counted and the endless array, the counted
  and the endless dictionary. The first argument bounds the depth of the calls and the
  number of rounds of an endless loop; \<open>None\<close> is a run that exceeds it. Reading the tag
  of an empty buffer gives \<open>undefined\<close>, which matches no branch, and building the
  message of the last branch from it raises a \<open>TypeError\<close> of its own. \<open>host\<close> is the
  parameter of \<open>js_String\<close>.
\<close>

function (sequential) unpackInternal ::
    "nat \<Rightarrow> (opack \<Rightarrow> string) \<Rightarrow> Buffer \<Rightarrow> opack list
       \<Rightarrow> (error + opack \<times> Buffer \<times> opack list) option"
  and unpack_array ::
    "nat \<Rightarrow> (opack \<Rightarrow> string) \<Rightarrow> nat \<Rightarrow> Buffer \<Rightarrow> opack list \<Rightarrow> opack list
       \<Rightarrow> (error + opack list \<times> Buffer \<times> opack list) option"
  and unpack_endless_array ::
    "nat \<Rightarrow> (opack \<Rightarrow> string) \<Rightarrow> Buffer \<Rightarrow> opack list \<Rightarrow> opack list
       \<Rightarrow> (error + opack list \<times> Buffer \<times> opack list) option"
  and unpack_dict ::
    "nat \<Rightarrow> (opack \<Rightarrow> string) \<Rightarrow> nat \<Rightarrow> Buffer \<Rightarrow> opack list \<Rightarrow> (string \<times> opack) list
       \<Rightarrow> (error + (string \<times> opack) list \<times> Buffer \<times> opack list) option"
  and unpack_endless_dict ::
    "nat \<Rightarrow> (opack \<Rightarrow> string) \<Rightarrow> Buffer \<Rightarrow> opack list \<Rightarrow> (string \<times> opack) list
       \<Rightarrow> (error + (string \<times> opack) list \<times> Buffer \<times> opack list) option"
where
  "unpackInternal 0 host data objectList = None"
| "unpackInternal (Suc fuel) host data objectList =
     (case data of
        [] \<Rightarrow>
          Some (Inl (TypeError (''Cannot read properties of undefined (reading '' @ apostrophe
                                  @ ''toString'' @ apostrophe @ '')'')))
      | tag # _ \<Rightarrow>
          (case unpack_scalar tag data of
             Some r \<Rightarrow> Some (remember r objectList)
           | None \<Rightarrow>
               if tag AND 0xf0 = 0xd0 then
                 (case (if tag AND 0xf = 0xf
                        then unpack_endless_array fuel host (drop 1 data) objectList []
                        else unpack_array fuel host (unat (tag AND 0xf)) (drop 1 data)
                               objectList []) of
                    None \<Rightarrow> None
                  | Some (Inl e) \<Rightarrow> Some (Inl e)
                  | Some (Inr (output, ptr, objectList')) \<Rightarrow>
                      Some (Inr (OArray output, ptr, objectList')))
               else if tag AND 0xe0 = 0xe0 then
                 (case (if tag AND 0xf = 0xf
                        then unpack_endless_dict fuel host (drop 1 data) objectList []
                        else unpack_dict fuel host (unat (tag AND 0xf)) (drop 1 data)
                               objectList []) of
                    None \<Rightarrow> None
                  | Some (Inl e) \<Rightarrow> Some (Inl e)
                  | Some (Inr (output, ptr, objectList')) \<Rightarrow>
                      Some (Inr (OObject output, ptr, objectList')))
               else
                 (case unpack_reference tag data objectList of
                    Some r \<Rightarrow> Some (remember r objectList)
                  | None \<Rightarrow>
                      Some (Inl (TypeError (''Unknown OPACK tag: 0x'' @ hex_digits (unat tag)))))))"
| "unpack_array fuel host 0 ptr objectList output = Some (Inr (output, ptr, objectList))"
| "unpack_array fuel host (Suc n) ptr objectList output =
     (case unpackInternal fuel host ptr objectList of
        None \<Rightarrow> None
      | Some (Inl e) \<Rightarrow> Some (Inl e)
      | Some (Inr (item, rest, objectList')) \<Rightarrow>
          unpack_array fuel host n rest objectList' (output @ [item]))"
| "unpack_endless_array 0 host ptr objectList output = None"
| "unpack_endless_array (Suc fuel) host ptr objectList output =
     (if ptr \<noteq> [] \<and> hd ptr = 0x03 then Some (Inr (output, drop 1 ptr, objectList))
      else
        (case unpackInternal fuel host ptr objectList of
           None \<Rightarrow> None
         | Some (Inl e) \<Rightarrow> Some (Inl e)
         | Some (Inr (item, rest, objectList')) \<Rightarrow>
             unpack_endless_array fuel host rest objectList' (output @ [item])))"
| "unpack_dict fuel host 0 ptr objectList output = Some (Inr (output, ptr, objectList))"
| "unpack_dict fuel host (Suc n) ptr objectList output =
     (case unpackInternal fuel host ptr objectList of
        None \<Rightarrow> None
      | Some (Inl e) \<Rightarrow> Some (Inl e)
      | Some (Inr (key, rest1, objectList')) \<Rightarrow>
          (case unpackInternal fuel host rest1 objectList' of
             None \<Rightarrow> None
           | Some (Inl e) \<Rightarrow> Some (Inl e)
           | Some (Inr (val, rest2, objectList'')) \<Rightarrow>
               unpack_dict fuel host n rest2 objectList''
                 (Object_set output (js_String host key) val)))"
| "unpack_endless_dict 0 host ptr objectList output = None"
| "unpack_endless_dict (Suc fuel) host ptr objectList output =
     (if ptr \<noteq> [] \<and> hd ptr = 0x03 then Some (Inr (output, drop 1 ptr, objectList))
      else
        (case unpackInternal fuel host ptr objectList of
           None \<Rightarrow> None
         | Some (Inl e) \<Rightarrow> Some (Inl e)
         | Some (Inr (key, rest1, objectList')) \<Rightarrow>
             (case unpackInternal fuel host rest1 objectList' of
                None \<Rightarrow> None
              | Some (Inl e) \<Rightarrow> Some (Inl e)
              | Some (Inr (val, rest2, objectList'')) \<Rightarrow>
                  unpack_endless_dict fuel host rest2 objectList''
                    (Object_set output (js_String host key) val))))"

  by pat_completeness auto
termination
  by (relation "measures
        [\<lambda>x. case x of Inl (Inl (fuel, _)) \<Rightarrow> fuel
                    | Inl (Inr (fuel, _)) \<Rightarrow> fuel
                    | Inr (Inl (fuel, _)) \<Rightarrow> fuel
                    | Inr (Inr (Inl (fuel, _))) \<Rightarrow> fuel
                    | Inr (Inr (Inr (fuel, _))) \<Rightarrow> fuel,
         \<lambda>x. case x of Inl (Inl _) \<Rightarrow> 0
                    | Inl (Inr (_, _, n, _)) \<Rightarrow> Suc n
                    | Inr (Inl _) \<Rightarrow> 1
                    | Inr (Inr (Inl (_, _, n, _))) \<Rightarrow> Suc n
                    | Inr (Inr (Inr _)) \<Rightarrow> 1]") auto

text \<open>
  \<open>unpack\<close> returns the value and the remaining bytes. Every call of \<open>unpackInternal\<close>
  that returns has consumed at least the tag byte, so twice the length of the buffer
  bounds the depth and the rounds of any run.
\<close>

definition unpack :: "(opack \<Rightarrow> string) \<Rightarrow> Buffer \<Rightarrow> (error + opack \<times> Buffer) option" where
  "unpack host data =
     (case unpackInternal (2 * length data + 1) host data [] of
        None \<Rightarrow> None
      | Some (Inl e) \<Rightarrow> Some (Inl e)
      | Some (Inr (v, remaining, _)) \<Rightarrow> Some (Inr (v, remaining)))"

section \<open>Properties of the cipher\<close>

lemma round_to_double_exact: "n \<le> 2 ^ 53 \<Longrightarrow> round_to_double n = n"
  by (simp add: round_to_double_def)

lemma js_increment_exact: "n < 2 ^ 53 \<Longrightarrow> js_increment n = n + 1"
  unfolding js_increment_def round_to_double_def by simp

lemma buildNonce_fits: "n < 2 ^ 64 \<Longrightarrow> \<exists>b. buildNonce c n = Inr b"
  by (simp add: buildNonce_def writeUIntLE_def)

text \<open>
  C10. A call of \<open>encrypt\<close> or \<open>decrypt\<close> with an explicit nonce (a string label or a
  buffer) leaves both counters as they were. A call without a nonce leaves the counter of
  the other direction as it was: \<open>encrypt\<close> never changes \<open>inCounter\<close> and \<open>decrypt\<close>
  never changes \<open>outCounter\<close>.
\<close>

theorem explicit_nonce_keeps_counters:
  "outCounter (fst (encrypt L c d (Some n) a)) = outCounter c
   \<and> inCounter (fst (encrypt L c d (Some n) a)) = inCounter c
   \<and> outCounter (fst (decrypt L c d (Some n) a)) = outCounter c
   \<and> inCounter (fst (decrypt L c d (Some n) a)) = inCounter c
   \<and> inCounter (fst (encrypt L c d None a)) = inCounter c
   \<and> outCounter (fst (decrypt L c d None a)) = outCounter c"
  by (cases n) (simp_all add: encrypt_def decrypt_def split: sum.splits)


lemma bit_length_0: "bit_length 0 = 0"
  by (simp add: bit_length.simps)

lemma bit_length_Suc_0: "bit_length (Suc 0) = Suc 0"
  by (simp add: bit_length.simps)

lemma bit_length_numeral: "bit_length (numeral k) = Suc (bit_length (numeral k div 2))"
  by (subst bit_length.simps) simp

lemmas bit_length_eval = bit_length_0 bit_length_Suc_0 bit_length_numeral

lemma js_increment_saturates: "js_increment 9007199254740992 = 9007199254740992"
  by (simp add: js_increment_def round_to_double_def Let_def bit_length_eval)

text \<open>
  C6, as the code has it. A call of \<open>encrypt\<close> without a nonce advances \<open>outCounter\<close> by
  exactly one, and a call of \<open>decrypt\<close> without a nonce advances \<open>inCounter\<close> by exactly
  one, as long as the counter is below \<open>2^53\<close>, the range in which a JavaScript number
  counts exactly. The nonce of the next counter-mode call of that direction is then built
  from the counter of this call plus one.
\<close>

theorem counter_nonce_advances_by_one:
  "(outCounter c < 2 ^ 53 \<longrightarrow>
      outCounter (fst (encrypt L c d None a)) = outCounter c + 1
      \<and> outNonce (fst (encrypt L c d None a)) = buildNonce c (outCounter c + 1))
   \<and> (inCounter c < 2 ^ 53 \<longrightarrow>
      inCounter (fst (decrypt L c d None a)) = inCounter c + 1
      \<and> inNonce (fst (decrypt L c d None a)) = buildNonce c (inCounter c + 1))"
proof -
  have fits: "writeUIntLE 8 n = Inr (uintLE 8 n)" if "n \<le> 2 ^ 53" for n :: nat
  proof -
    have "(2::nat) ^ 53 < 2 ^ 64" by simp
    with that have "n < 2 ^ (8 * 8)" by simp
    then show ?thesis by (simp add: writeUIntLE_def)
  qed
  have out: "outCounter (fst (encrypt L c d None a)) = outCounter c + 1
      \<and> outNonce (fst (encrypt L c d None a)) = buildNonce c (outCounter c + 1)"
    if "outCounter c < 2 ^ 53"
  proof -
    have "writeUIntLE 8 (outCounter c) = Inr (uintLE 8 (outCounter c))"
      using that by (intro fits) simp
    moreover have "writeUIntLE 8 (Suc (outCounter c)) = Inr (uintLE 8 (Suc (outCounter c)))"
      using that by (intro fits) simp
    ultimately show ?thesis
      using that by (simp add: encrypt_def outNonce_def buildNonce_def js_increment_exact)
  qed
  have inn: "inCounter (fst (decrypt L c d None a)) = inCounter c + 1
      \<and> inNonce (fst (decrypt L c d None a)) = buildNonce c (inCounter c + 1)"
    if "inCounter c < 2 ^ 53"
  proof -
    have "writeUIntLE 8 (inCounter c) = Inr (uintLE 8 (inCounter c))"
      using that by (intro fits) simp
    moreover have "writeUIntLE 8 (Suc (inCounter c)) = Inr (uintLE 8 (Suc (inCounter c)))"
      using that by (intro fits) simp
    ultimately show ?thesis
      using that by (simp add: decrypt_def inNonce_def buildNonce_def js_increment_exact)
  qed
  from out inn show ?thesis by blast
qed

theorem counter_nonce_advances_by_one_witness:
  "outCounter (new_Chacha20Cipher [] [] 12) < 2 ^ 53
   \<and> inCounter (new_Chacha20Cipher [] [] 12) < 2 ^ 53
   \<and> outCounter (fst (encrypt sample_aead (new_Chacha20Cipher [] [] 12) [1] None None)) = 1
   \<and> inCounter (fst (decrypt sample_aead (new_Chacha20Cipher [] [] 12) [1] None None)) = 1"
  using counter_nonce_advances_by_one
          [of "new_Chacha20Cipher [] [] 12" sample_aead "[1]" None]
  by (simp add: new_Chacha20Cipher_def)

text \<open>
  The claim as the specification states it, for every counter-mode call, fails where the
  counter has reached \<open>2^53 = 9007199254740992\<close>: there \<open>outCounter++\<close> leaves the
  number as it is, and the next frame is sealed under the same nonce.
\<close>

theorem counter_nonce_counterexample:
  "outCounter (fst (encrypt sample_aead
       \<lparr>outCounter = 9007199254740992, inCounter = 0, nonceLength = 12,
        outKey = [], inKey = []\<rparr> [1] None None))
   = 9007199254740992"
  by (simp add: encrypt_def outNonce_def buildNonce_def writeUIntLE_def
                js_increment_saturates)

section \<open>Properties of the connection\<close>

lemma le_value_uintLE: "v < 2 ^ (8 * n) \<Longrightarrow> le_value (uintLE n v) = v"
proof (induction n arbitrary: v)
  case 0
  then show ?case by simp
next
  case (Suc n)
  have "v div 256 < 2 ^ (8 * n)"
    using Suc.prems by (simp add: less_mult_imp_div_less power_add mult.commute)
  then have "le_value (uintLE n (v div 256)) = v div 256"
    by (rule Suc.IH)
  then show ?case
    by (simp add: unat_of_nat)
qed

lemma length_uintLE [simp]: "length (uintLE n v) = n"
  by (induction n arbitrary: v) simp_all

lemma header_alloc: "take (Suc 0) ((replicate 4 0)[0 := t]) = [t]"
  by (simp add: eval_nat_numeral)

lemma writeUIntBE_header:
  assumes "writeUIntBE ((replicate HEADER_LENGTH 0)[0 := t]) v 1 3 = Inr header"
  shows "header = t # rev (uintLE 3 v) \<and> v < 2 ^ 24 \<and> readUIntBE header 1 3 = Inr v"
proof -
  have v: "v < 2 ^ (8 * 3)"
    using assms by (simp add: writeUIntBE_def split: if_splits)
  have h: "header = t # rev (uintLE 3 v)"
    using assms by (auto simp: writeUIntBE_def HEADER_LENGTH_def header_alloc split: if_splits)
  have "le_value (rev (take 3 (rev (uintLE 3 v)))) = v"
    using le_value_uintLE [OF v] by simp
  then have "readUIntBE header 1 3 = Inr v"
    by (simp add: readUIntBE_def h)
  with v h show ?thesis by simp
qed

lemma send_writes:
  assumes "send L frameType data conn = (conn', Inr ())"
  shows "\<exists>written header payload.
           socket conn = Some written
           \<and> socket conn' = Some (written @ [header @ payload])
           \<and> length header = 4
           \<and> hd header = of_nat (FrameType_value frameType)
           \<and> (case chacha conn of
                 Some ch \<Rightarrow>
                   if data \<noteq> [] then
                     readUIntBE header 1 3 = Inr (length data + 16)
                     \<and> (\<exists>nonce. outNonce ch = Inr nonce
                           \<and> aead_seal L (outKey ch) nonce (Some header) data = Inr payload)
                   else readUIntBE header 1 3 = Inr (length data) \<and> payload = data
               | None \<Rightarrow> readUIntBE header 1 3 = Inr (length data) \<and> payload = data)"
proof -
  obtain written where w: "socket conn = Some written"
    using assms by (cases "socket conn") (simp_all add: send_def)
  define plen where
    "plen = (if chacha conn \<noteq> None \<and> length data > 0
             then length data + AUTH_TAG_LENGTH else length data)"
  define t where "t = (of_nat (FrameType_value frameType) :: byte)"
  obtain header where
    hd: "writeUIntBE ((replicate HEADER_LENGTH 0)[0 := t]) plen 1 3 = Inr header"
    using assms w unfolding send_def plen_def t_def
    by (cases "writeUIntBE ((replicate HEADER_LENGTH 0)[0 := of_nat (FrameType_value frameType)])
                 (if chacha conn \<noteq> None \<and> length data > 0
                  then length data + AUTH_TAG_LENGTH else length data) 1 3")
       (simp_all add: Let_def)
  note H = writeUIntBE_header [OF hd]
  have len: "length header = 4" and hd0: "hd header = t"
    using H by simp_all
  have rd: "readUIntBE header 1 3 = Inr plen"
    using H by blast
  show ?thesis
  proof (cases "chacha conn")
    case None
    then have "socket conn' = Some (written @ [header @ data])"
      using assms w hd unfolding send_def plen_def t_def by (auto simp: Let_def)
    moreover have "readUIntBE header 1 3 = Inr (length data)"
      using rd None by (simp add: plen_def)
    ultimately show ?thesis
      using w len hd0 None unfolding t_def by simp
  next
    case (Some ch)
    show ?thesis
    proof (cases "data = []")
      case True
      then have "socket conn' = Some (written @ [header @ data])"
        using assms w hd Some unfolding send_def plen_def t_def by (auto simp: Let_def)
      moreover have "readUIntBE header 1 3 = Inr (length data)"
        using rd Some True by (simp add: plen_def)
      ultimately show ?thesis
        using w len hd0 Some True unfolding t_def by simp
    next
      case False
      have pl: "plen = length data + 16"
        using Some False by (simp add: plen_def AUTH_TAG_LENGTH_def)
      obtain ch' payload where
        e: "encrypt L ch data None (Some header) = (ch', Inr payload)"
        and s: "socket conn' = Some (written @ [header @ payload])"
        using assms w hd Some False unfolding send_def plen_def t_def
        by (auto simp: Let_def split: prod.splits sum.splits)
      obtain nonce where n: "outNonce ch = Inr nonce"
        and seal: "aead_seal L (outKey ch) nonce (Some header) data = Inr payload"
        using e by (auto simp: encrypt_def split: sum.splits)
      have "readUIntBE header 1 3 = Inr (length data + 16)"
        using rd pl by simp
      then show ?thesis
        using w s len hd0 Some False n seal unfolding t_def by auto
    qed
  qed
qed

text \<open>
  C5. Whenever \<open>send\<close> writes a frame, it writes the four header bytes followed by the
  payload. With a cipher installed and a non-empty plain text, the 3-byte big-endian
  length field of the header holds \<open>len(plaintext) + 16\<close> and the payload is the seal of
  the plain text under the out key and the counter nonce, with the header as associated
  data; otherwise the length field holds \<open>len(plaintext)\<close> and the payload is the plain
  text itself.
\<close>

theorem send_frame_layout:
  assumes "send L frameType data conn = (conn', Inr ())"
  shows "\<exists>written header payload.
           socket conn = Some written
           \<and> socket conn' = Some (written @ [header @ payload])
           \<and> length header = 4
           \<and> hd header = of_nat (FrameType_value frameType)
           \<and> (case chacha conn of
                 Some ch \<Rightarrow>
                   if data \<noteq> [] then
                     readUIntBE header 1 3 = Inr (length data + 16)
                     \<and> (\<exists>nonce. outNonce ch = Inr nonce
                           \<and> aead_seal L (outKey ch) nonce (Some header) data = Inr payload)
                   else readUIntBE header 1 3 = Inr (length data) \<and> payload = data
               | None \<Rightarrow> readUIntBE header 1 3 = Inr (length data) \<and> payload = data)"
  using assms by (rule send_writes)

theorem send_frame_layout_witness:
  "send sample_aead E_OPACK [1, 2, 3]
       \<lparr>socket = Some [], buffer = [], chacha = Some (new_Chacha20Cipher [] [] 12)\<rparr>
     = (\<lparr>socket = Some [ [8, 0, 0, 19, 1, 2, 3] @ replicate 16 0], buffer = [],
         chacha = Some ((new_Chacha20Cipher [] [] 12)\<lparr>outCounter := 1\<rparr>)\<rparr>, Inr ())
   \<and> (\<exists>written header payload.
         Some [] = Some written
         \<and> Some [ [8, 0, 0, 19, 1, 2, 3] @ replicate 16 0] = Some (written @ [header @ payload])
         \<and> readUIntBE header 1 3 = Inr (3 + 16))"
proof -
  have e: "send sample_aead E_OPACK [1, 2, 3]
       \<lparr>socket = Some [], buffer = [], chacha = Some (new_Chacha20Cipher [] [] 12)\<rparr>
     = (\<lparr>socket = Some [ [8, 0, 0, 19, 1, 2, 3] @ replicate 16 0], buffer = [],
         chacha = Some ((new_Chacha20Cipher [] [] 12)\<lparr>outCounter := 1\<rparr>)\<rparr>, Inr ())"
    by (simp add: send_def writeUIntBE_def HEADER_LENGTH_def AUTH_TAG_LENGTH_def
          encrypt_def outNonce_def buildNonce_def writeUIntLE_def new_Chacha20Cipher_def
          sample_aead_def js_increment_exact numeral_3_eq_3 header_alloc Let_def)
  from send_frame_layout [OF e] show ?thesis
    using e by (auto simp: new_Chacha20Cipher_def)
qed

text \<open>
  C4, as the code has it. In the frame-type enumeration of the transport
  (\<open>connection.ts\<close>) \<open>NoOp\<close> is \<open>0x01\<close> and \<open>0x00\<close> is \<open>Unknown\<close>; a \<open>NoOp\<close> frame
  that \<open>send\<close> writes starts with the byte \<open>0x01\<close>. The value \<open>0x00\<close> for \<open>NoOp\<close> is
  that of the enumeration in \<open>types.ts\<close>, which the transport does not use.
\<close>

theorem noop_frame_type_value:
  "FrameType_value NoOp = 0x01
   \<and> FrameType_value Unknown = 0x00
   \<and> types_FrameType_value NoOp_t = 0x00
   \<and> (\<forall>L data conn conn'. send L NoOp data conn = (conn', Inr ()) \<longrightarrow>
         (\<exists>written frame. socket conn' = Some (written @ [frame]) \<and> hd frame = 0x01))"
proof -
  have "\<exists>written frame. socket conn' = Some (written @ [frame]) \<and> hd frame = 0x01"
    if "send L NoOp data conn = (conn', Inr ())" for L data conn conn'
  proof -
    from send_writes [OF that] obtain written header payload where
      "socket conn' = Some (written @ [header @ payload])" "length header = 4"
      "hd header = of_nat (FrameType_value NoOp)"
      by blast
    then have "socket conn' = Some (written @ [header @ payload]) \<and> hd (header @ payload) = 0x01"
      by (cases header) simp_all
    then show ?thesis by blast
  qed
  then show ?thesis by simp
qed

theorem noop_frame_type_value_witness:
  "send sample_aead NoOp [] \<lparr>socket = Some [], buffer = [], chacha = None\<rparr>
     = (\<lparr>socket = Some [ [1, 0, 0, 0]], buffer = [], chacha = None\<rparr>, Inr ())
   \<and> (\<exists>written frame.
         socket \<lparr>socket = Some [ [1, 0, 0, 0]], buffer = [], chacha = None\<rparr>
           = Some (written @ [frame]) \<and> hd frame = 0x01)"
proof -
  have e: "send sample_aead NoOp [] \<lparr>socket = Some [], buffer = [], chacha = None\<rparr>
     = (\<lparr>socket = Some [ [1, 0, 0, 0]], buffer = [], chacha = None\<rparr>, Inr ())"
    by (simp add: send_def writeUIntBE_def HEADER_LENGTH_def numeral_3_eq_3 header_alloc Let_def)
  from noop_frame_type_value have
    "\<forall>L data conn conn'. send L NoOp data conn = (conn', Inr ()) \<longrightarrow>
       (\<exists>written frame. socket conn' = Some (written @ [frame]) \<and> hd frame = 0x01)"
    by (elim conjE)
  from this [rule_format, OF e] e show ?thesis by (intro conjI)
qed

theorem noop_frame_type_counterexample:
  "FrameType_value NoOp \<noteq> 0x00"
  by simp

section \<open>Properties of the TLV8 codec\<close>

lemma readTlv_loop_suffix:
  "readTlv_loop data pos result = read_suffix (drop pos data) result"
proof (induction data pos result rule: readTlv_loop.induct)
  case (1 data pos result)
  show ?case
  proof (cases "pos < length data")
    case False
    then show ?thesis by (simp add: readTlv_loop.simps)
  next
    case True
    show ?thesis
    proof (cases "pos + 1 < length data")
      case False
      with True have "drop pos data = [data ! pos]"
        by (metis Cons_nth_drop_Suc Suc_eq_plus1 drop_all not_less)
      with True False show ?thesis
        by (simp add: readTlv_loop.simps [of data pos])
    next
      case l: True
      have d: "drop pos data = data ! pos # data ! (pos + 1) # drop (pos + 2) data"
        using True l by (metis Cons_nth_drop_Suc Suc_eq_plus1 add_2_eq_Suc')
      have "readTlv_loop data pos result =
              readTlv_loop data (pos + 2 + unat (data ! (pos + 1)))
                (tlv_store result (unat (data ! pos))
                   (subarray data (pos + 2) (pos + 2 + unat (data ! (pos + 1)))))"
        using True l by (simp add: readTlv_loop.simps [of data pos])
      also have "\<dots> = read_suffix (drop (pos + 2 + unat (data ! (pos + 1))) data)
                (tlv_store result (unat (data ! pos))
                   (subarray data (pos + 2) (pos + 2 + unat (data ! (pos + 1)))))"
        using True l by (rule "1.IH")
      also have "\<dots> = read_suffix (drop pos data) result"
        by (simp add: d subarray_def add.commute)
      finally show ?thesis .
    qed
  qed
qed

lemma readTlv_suffix: "readTlv data = read_suffix data []"
  by (simp add: readTlv_def readTlv_loop_suffix)

lemma map_of_Map_set: "map_of (Map_set r k v) = (map_of r)(k \<mapsto> v)"
  by (induction r) auto

lemma Map_set_same: "map_of r k = Some e \<Longrightarrow> Map_set r k e = r"
  by (induction r) (auto split: if_splits)

lemma Map_set_Map_set: "Map_set (Map_set r k a) k b = Map_set r k b"
  by (induction r) auto

lemma Map_set_new: "map_of r k = None \<Longrightarrow> Map_set r k v = r @ [(k, v)]"
  by (induction r) (auto split: if_splits)

lemma tlv_store_twice: "tlv_store (tlv_store r t a) t b = tlv_store r t (a @ b)"
  by (simp add: tlv_store_def Map_has_def Map_get_def map_of_Map_set Map_set_Map_set)

lemma tlv_store_nil: "Map_has r t \<Longrightarrow> tlv_store r t [] = r"
  by (auto simp: tlv_store_def Map_has_def Map_get_def Map_set_same)

lemma Map_has_tlv_store: "Map_has (tlv_store r t a) t"
  by (simp add: tlv_store_def Map_has_def map_of_Map_set)

lemma tlv_store_new: "map_of r t = None \<Longrightarrow> tlv_store r t v = r @ [(t, v)]"
  by (simp add: tlv_store_def Map_has_def Map_set_new)

lemma read_suffix_triple:
  assumes "tag < 256" "length chunk \<le> 255"
  shows "read_suffix ([of_nat tag, of_nat (length chunk)] @ chunk @ rest) r
           = read_suffix rest (tlv_store r tag chunk)"
proof -
  have "unat (of_nat tag :: byte) = tag"
    using assms(1) by (simp add: unat_of_nat)
  moreover have "unat (of_nat (length chunk) :: byte) = length chunk"
    using assms(2) by (simp add: unat_of_nat)
  ultimately show ?thesis by simp
qed

lemma writeTlv_loop_read:
  assumes "tag < 256"
  shows "pos + remaining = length v \<Longrightarrow>
         \<exists>cs. writeTlv_loop tag v pos remaining chunks = Some (chunks @ cs)
              \<and> (\<forall>rest r. pos = 0 \<or> Map_has r tag \<longrightarrow>
                    read_suffix (concat cs @ rest) r
                      = read_suffix rest (tlv_store r tag (drop pos v)))"
proof (induction remaining arbitrary: pos chunks rule: less_induct)
  case (less remaining)
  show ?case
  proof (cases "remaining = 0")
    case True
    show ?thesis
    proof (cases "pos = 0")
      case False
      with True less.prems show ?thesis
        by (subst writeTlv_loop.simps) (simp add: tlv_store_nil)
    next
      case p: True
      with True less.prems have v: "v = []" by simp
      have "writeTlv_loop tag v pos remaining chunks = Some (chunks @ [ [of_nat tag, 0]])"
        using True p v by (subst writeTlv_loop.simps) simp
      moreover have "read_suffix (concat [ [of_nat tag, 0]] @ rest) r
                      = read_suffix rest (tlv_store r tag (drop pos v))" for rest r
        using read_suffix_triple [OF assms, of "[]" rest r] v by simp
      ultimately show ?thesis by blast
    qed
  next
    case False
    define n where "n = min remaining 255"
    define chunk where "chunk = subarray v pos (pos + n)"
    define chunks' where "chunks' = chunks @ [ [of_nat tag, of_nat n]] @ [chunk]"
    have n: "0 < n" "n \<le> remaining" "n \<le> 255"
      using False by (simp_all add: n_def)
    have lc: "length chunk = n"
      using less.prems n by (simp add: chunk_def subarray_def)
    have vne: "length v \<noteq> 0"
      using False less.prems by auto
    have step: "writeTlv_loop tag v pos remaining chunks
                  = writeTlv_loop tag v (pos + n) (remaining - n) chunks'"
      using False n vne
      by (subst writeTlv_loop.simps) (simp add: Let_def n_def chunk_def chunks'_def)
    have "remaining - n < remaining" using n by simp
    moreover have "pos + n + (remaining - n) = length v"
      using less.prems n by simp
    ultimately obtain cs where
      w: "writeTlv_loop tag v (pos + n) (remaining - n) chunks' = Some (chunks' @ cs)"
      and rd: "\<And>rest r. Map_has r tag \<Longrightarrow>
                 read_suffix (concat cs @ rest) r
                   = read_suffix rest (tlv_store r tag (drop (pos + n) v))"
      using less.IH [of "remaining - n" "pos + n" chunks'] n by auto
    have dv: "chunk @ drop (pos + n) v = drop pos v"
      by (simp add: chunk_def subarray_def add.commute [of pos n] flip: drop_drop)
    have "writeTlv_loop tag v pos remaining chunks
            = Some (chunks @ ([ [of_nat tag, of_nat n], chunk] @ cs))"
      using step w by (simp add: chunks'_def)
    moreover have "read_suffix (concat ([ [of_nat tag, of_nat n], chunk] @ cs) @ rest) r
                     = read_suffix rest (tlv_store r tag (drop pos v))" for rest r
    proof -
      have "read_suffix (concat ([ [of_nat tag, of_nat n], chunk] @ cs) @ rest) r
              = read_suffix ([of_nat tag, of_nat (length chunk)] @ chunk @ (concat cs @ rest)) r"
        by (simp add: lc)
      also have "\<dots> = read_suffix (concat cs @ rest) (tlv_store r tag chunk)"
        using n lc by (intro read_suffix_triple assms) simp
      also have "\<dots> = read_suffix rest (tlv_store (tlv_store r tag chunk) tag (drop (pos + n) v))"
        by (rule rd) (rule Map_has_tlv_store)
      also have "\<dots> = read_suffix rest (tlv_store r tag (drop pos v))"
        by (simp add: tlv_store_twice dv)
      finally show ?thesis .
    qed
    ultimately show ?thesis by blast
  qed
qed

lemma writeTlv_entries_read:
  assumes "\<forall>(t, v) \<in> set M. t < 256"
  shows "\<exists>cs. writeTlv_entries M chunks = Some (chunks @ cs)
              \<and> (\<forall>rest r. read_suffix (concat cs @ rest) r
                    = read_suffix rest (foldl (\<lambda>r (t, v). tlv_store r t v) r M))"
  using assms
proof (induction M arbitrary: chunks)
  case Nil
  then show ?case by simp
next
  case (Cons e M)
  obtain t v where e: "e = (t, v)" by (cases e)
  have t: "t < 256" using Cons.prems e by simp
  from writeTlv_loop_read [OF t, of 0 "length v" v chunks] obtain cs1 where
    w1: "writeTlv_loop t v 0 (length v) chunks = Some (chunks @ cs1)"
    and r1: "\<And>rest r. read_suffix (concat cs1 @ rest) r = read_suffix rest (tlv_store r t v)"
    by auto
  from Cons.IH [of "chunks @ cs1"] Cons.prems obtain cs2 where
    w2: "writeTlv_entries M (chunks @ cs1) = Some ((chunks @ cs1) @ cs2)"
    and r2: "\<And>rest r. read_suffix (concat cs2 @ rest) r
               = read_suffix rest (foldl (\<lambda>r (t, v). tlv_store r t v) r M)"
    by auto
  have "writeTlv_entries (e # M) chunks = Some (chunks @ (cs1 @ cs2))"
    using w1 w2 e by simp
  moreover have "read_suffix (concat (cs1 @ cs2) @ rest) r
                   = read_suffix rest (foldl (\<lambda>r (t, v). tlv_store r t v) r (e # M))" for rest r
    using r1 [of "concat cs2 @ rest" r] r2 [of rest "tlv_store r t v"] e by simp
  ultimately show ?case by blast
qed

lemma foldl_tlv_store_distinct:
  "distinct (map fst (r @ M)) \<Longrightarrow> foldl (\<lambda>r (t, v). tlv_store r t v) r M = r @ M"
proof (induction M arbitrary: r)
  case Nil
  then show ?case by simp
next
  case (Cons e M)
  obtain t v where e: "e = (t, v)" by (cases e)
  have "map_of r t = None"
    using Cons.prems e by (auto simp: map_of_eq_None_iff)
  then have "tlv_store r t v = r @ [(t, v)]" by (rule tlv_store_new)
  moreover have "distinct (map fst ((r @ [(t, v)]) @ M))"
    using Cons.prems e by simp
  ultimately show ?case
    using Cons.IH [of "r @ [(t, v)]"] e by simp
qed

text \<open>
  C3. For every \<open>TlvData\<close> map \<open>M\<close> whose tags are bytes (the keys of a \<open>Map\<close> are
  distinct), \<open>writeTlv\<close> returns an encoding and \<open>readTlv\<close> of that encoding is \<open>M\<close>
  again, entries in the same order; the chunks of a value longer than 255 bytes are put
  together again by concatenation under their tag. The code has no size limit, so the
  statement holds for an encoding of any size, the ones up to 10 MB among them.
\<close>

theorem readTlv_writeTlv:
  assumes "distinct (map fst M)" and "\<forall>(t, v) \<in> set M. t < 256"
  shows "\<exists>enc. writeTlv M = Some enc \<and> readTlv enc = M"
proof -
  from writeTlv_entries_read [OF assms(2), of "[]"] obtain cs where
    w: "writeTlv_entries M [] = Some cs"
    and r: "\<And>rest r. read_suffix (concat cs @ rest) r
              = read_suffix rest (foldl (\<lambda>r (t, v). tlv_store r t v) r M)"
    by auto
  have "readTlv (concat cs) = foldl (\<lambda>r (t, v). tlv_store r t v) [] M"
    using r [of "[]" "[]"] by (simp add: readTlv_suffix)
  also have "\<dots> = M"
    using foldl_tlv_store_distinct [of "[]" M] assms(1) by simp
  finally show ?thesis
    using w by (simp add: writeTlv_def)
qed


theorem readTlv_writeTlv_witness:
  "distinct (map fst [(10 :: nat, [0x31, 0x32, 0x33 :: byte])])
   \<and> (10 :: nat) < 256
   \<and> (\<exists>enc. writeTlv [(10, [0x31, 0x32, 0x33])] = Some enc
          \<and> readTlv enc = [(10, [0x31, 0x32, 0x33])])"
proof -
  have d: "distinct (map fst [(10 :: nat, [0x31, 0x32, 0x33 :: byte])])" by simp
  have b: "\<forall>(t, v) \<in> set [(10 :: nat, [0x31, 0x32, 0x33 :: byte])]. t < 256" by simp
  from readTlv_writeTlv [OF d b] d show ?thesis by simp
qed

lemma read_suffix_complete_append:
  "tlv_complete pre \<Longrightarrow> read_suffix (pre @ suf) r = read_suffix suf (read_suffix pre r)"
proof (induction pre arbitrary: r rule: tlv_complete.induct)
  case 1
  then show ?case by simp
next
  case (2 t)
  then show ?case by simp
next
  case (3 t l rest)
  then show ?case by simp
qed

lemma truncated_decompose:
  "\<not> tlv_complete data \<Longrightarrow>
   \<exists>pre t. tlv_complete pre
     \<and> (data = pre @ [t] \<or> (\<exists>l v. data = pre @ t # l # v \<and> length v < unat l))"
proof (induction data rule: tlv_complete.induct)
  case 1
  then show ?case by simp
next
  case (2 t)
  have "tlv_complete [] \<and> [t] = [] @ [t]" by simp
  then show ?case by blast
next
  case (3 t l rest)
  show ?case
  proof (cases "unat l \<le> length rest")
    case False
    then have "tlv_complete [] \<and> t # l # rest = [] @ t # l # rest \<and> length rest < unat l"
      by simp
    then show ?thesis by blast
  next
    case True
    with "3.prems" have "\<not> tlv_complete (drop (unat l) rest)" by simp
    from "3.IH" [OF this] obtain pre t' where
      c: "tlv_complete pre"
      and d: "drop (unat l) rest = pre @ [t']
              \<or> (\<exists>l' v. drop (unat l) rest = pre @ t' # l' # v \<and> length v < unat l')"
      by blast
    define pre' where "pre' = t # l # take (unat l) rest @ pre"
    have c': "tlv_complete pre'"
      using c True by (simp add: pre'_def)
    have r: "rest = take (unat l) rest @ drop (unat l) rest" by simp
    from d show ?thesis
    proof
      assume "drop (unat l) rest = pre @ [t']"
      with r have "t # l # rest = pre' @ [t']"
        by (simp add: pre'_def)
      with c' show ?thesis by blast
    next
      assume "\<exists>l' v. drop (unat l) rest = pre @ t' # l' # v \<and> length v < unat l'"
      then obtain l' v where
        e: "drop (unat l) rest = pre @ t' # l' # v" and v: "length v < unat l'"
        by blast
      from e r have "t # l # rest = pre' @ t' # l' # v"
        by (simp add: pre'_def)
      with c' v show ?thesis by blast
    qed
  qed
qed

text \<open>
  C8, as the code has it. \<open>readTlv\<close> has no parse error: for every buffer that contains
  a truncated triple it returns a result map. The buffer is a sequence of whole triples
  followed by the truncated one, and the result is the map of the whole triples in which
  the tag of the truncated triple is given the value bytes that are there (stored, or
  concatenated with the value the tag already has): no bytes where the length byte is
  missing, fewer than the length byte says otherwise.
\<close>

theorem readTlv_truncated:
  assumes "\<not> tlv_complete data"
  shows "\<exists>pre t. tlv_complete pre
           \<and> ((data = pre @ [t] \<and> readTlv data = tlv_store (readTlv pre) (unat t) [])
              \<or> (\<exists>l v. data = pre @ t # l # v \<and> length v < unat l
                    \<and> readTlv data = tlv_store (readTlv pre) (unat t) v))"
proof -
  from truncated_decompose [OF assms] obtain pre t where
    c: "tlv_complete pre"
    and d: "data = pre @ [t] \<or> (\<exists>l v. data = pre @ t # l # v \<and> length v < unat l)"
    by blast
  from d show ?thesis
  proof
    assume e: "data = pre @ [t]"
    have "readTlv data = tlv_store (readTlv pre) (unat t) []"
      using c by (simp add: e readTlv_suffix read_suffix_complete_append)
    with c e show ?thesis by blast
  next
    assume "\<exists>l v. data = pre @ t # l # v \<and> length v < unat l"
    then obtain l v where e: "data = pre @ t # l # v" and v: "length v < unat l"
      by blast
    have "readTlv data = tlv_store (readTlv pre) (unat t) v"
      using c v by (simp add: e readTlv_suffix read_suffix_complete_append)
    with c e v show ?thesis by blast
  qed
qed

theorem readTlv_truncated_witness:
  "\<not> tlv_complete [0x0a, 0x03, 0x31]
   \<and> (\<exists>pre t. tlv_complete pre
         \<and> (([0x0a, 0x03, 0x31] = pre @ [t]
               \<and> readTlv [0x0a, 0x03, 0x31] = tlv_store (readTlv pre) (unat t) [])
            \<or> (\<exists>l v. [0x0a, 0x03, 0x31] = pre @ t # l # v \<and> length v < unat l
                  \<and> readTlv [0x0a, 0x03, 0x31] = tlv_store (readTlv pre) (unat t) v)))"
proof -
  have h: "\<not> tlv_complete [0x0a, 0x03, 0x31]" by simp
  from readTlv_truncated [OF h] h show ?thesis by (intro conjI)
qed

text \<open>
  The claim as the specification states it fails on the two kinds of truncation: a buffer
  of one byte (no length byte) and a buffer whose value is shorter than its length byte
  says are both read into a map.
\<close>

theorem readTlv_truncated_counterexample:
  "readTlv [0x0a] = [(10, [])] \<and> readTlv [0x0a, 0x03, 0x31] = [(10, [0x31])]"
  by (simp add: readTlv_suffix tlv_store_def Map_has_def)

section \<open>Properties of the pairing handler\<close>

lemma length_utf8 [simp]: "length (utf8 s) = length s"
  by (simp add: utf8_def)

lemma length_toString_hex: "length (toString_hex buf) = 2 * length buf"
  by (induction buf) (simp_all add: toString_hex_def byte_hex_def)

lemma length_uuidv4: "length (uuidv4 rnds) = 36"
  by (simp add: uuidv4_def Let_def length_toString_hex)

text \<open>
  Where the key exchange has succeeded and the decryption of the device's data raises,
  \<open>verify1\<close> raises that exception of the primitive, with the shared secret stored.
\<close>

lemma verify1_decrypt_raises:
  assumes "verifyKey h = Some vk"
    and "x25519SharedSecret C (privateKey vk) sessionPubKey = Inr shared"
    and "snd (decrypt (chacha20poly1305 C)
                (new_Chacha20Cipher8byteNonce
                   (hkdfExpand C ''Pair-Verify-Encrypt-Salt'' ''Pair-Verify-Encrypt-Info'' shared)
                   (hkdfExpand C ''Pair-Verify-Encrypt-Salt'' ''Pair-Verify-Encrypt-Info'' shared))
                encrypted (Some (NonceString ''PV-Msg02'')) None) = Inl e"
  shows "verify1 C h credentials sessionPubKey encrypted
           = Some (h\<lparr>sharedSecret := Some shared\<rparr>, Inl e)"
  using assms by (auto simp: verify1_def Let_def split: prod.splits)

text \<open>
  C7, as the code has it. \<open>verify1\<close> returns M3 data only if the device's decrypted TLV
  holds an \<open>Identifier\<close> equal to \<open>credentials.atvId\<close> and a \<open>Signature\<close> that
  \<open>ed25519Verify\<close> accepts under \<open>credentials.ltpk\<close> over
  \<open>sessionPubKey || atvId || verifyKey.publicKey\<close>. Whenever that TLV is there and the
  identifier differs or is missing, or the signature is missing or is not accepted,
  \<open>verify1\<close> raises an \<open>AuthenticationError\<close> and returns no M3 data. Where the
  decryption of the device's data raises, as it does when a changed \<open>sessionPubKey\<close> has
  changed the derived key, \<open>verify1\<close> raises that exception of the AEAD primitive, which
  is not an \<open>AuthenticationError\<close>, and returns no M3 data either. Whether a flipped byte
  makes Ed25519 reject a signature is a property of the primitive, which is a parameter
  here.
\<close>

theorem verify1_checks_device:
  "(verify1 C h credentials sessionPubKey encrypted = Some (h', Inr out) \<longrightarrow>
      (\<exists>vk tlv signature.
          verify1_decryptedTlv C h sessionPubKey encrypted = Some (vk, tlv)
          \<and> Map_get tlv TlvValue_Identifier = Some (atvId credentials)
          \<and> Map_get tlv TlvValue_Signature = Some signature
          \<and> ed25519Verify C (ltpk credentials)
                (sessionPubKey @ atvId credentials @ publicKey vk) signature))
   \<and> (verify1_decryptedTlv C h sessionPubKey encrypted = Some (vk', tlv')
        \<and> (Map_get tlv' TlvValue_Identifier \<noteq> Some (atvId credentials)
            \<or> (\<forall>signature. Map_get tlv' TlvValue_Signature = Some signature \<longrightarrow>
                  \<not> ed25519Verify C (ltpk credentials)
                       (sessionPubKey @ atvId credentials @ publicKey vk') signature)) \<longrightarrow>
      (\<exists>h'' msg. verify1 C h credentials sessionPubKey encrypted
                    = Some (h'', Inl (AuthenticationError msg))))
   \<and> (verifyKey h = Some vk''
        \<and> x25519SharedSecret C (privateKey vk'') sessionPubKey = Inr shared
        \<and> snd (decrypt (chacha20poly1305 C)
                  (new_Chacha20Cipher8byteNonce
                     (hkdfExpand C ''Pair-Verify-Encrypt-Salt'' ''Pair-Verify-Encrypt-Info'' shared)
                     (hkdfExpand C ''Pair-Verify-Encrypt-Salt'' ''Pair-Verify-Encrypt-Info'' shared))
                  encrypted (Some (NonceString ''PV-Msg02'')) None) = Inl e \<longrightarrow>
      verify1 C h credentials sessionPubKey encrypted
        = Some (h\<lparr>sharedSecret := Some shared\<rparr>, Inl e))"
proof (intro conjI impI)
  assume ok: "verify1 C h credentials sessionPubKey encrypted = Some (h', Inr out)"
  then obtain vk where vk: "verifyKey h = Some vk"
    by (cases "verifyKey h") (simp_all add: verify1_def)
  from ok vk obtain shared where
    sh: "x25519SharedSecret C (privateKey vk) sessionPubKey = Inr shared"
    by (cases "x25519SharedSecret C (privateKey vk) sessionPubKey") (simp_all add: verify1_def)
  define key where
    "key = hkdfExpand C ''Pair-Verify-Encrypt-Salt'' ''Pair-Verify-Encrypt-Info'' shared"
  obtain chacha' r where
    d: "decrypt (chacha20poly1305 C) (new_Chacha20Cipher8byteNonce key key) encrypted
          (Some (NonceString ''PV-Msg02'')) None = (chacha', r)"
    by (cases "decrypt (chacha20poly1305 C) (new_Chacha20Cipher8byteNonce key key) encrypted
          (Some (NonceString ''PV-Msg02'')) None")
  from ok vk sh d obtain plain where r: "r = Inr plain"
    by (cases r) (simp_all add: verify1_def Let_def key_def)
  have t: "verify1_decryptedTlv C h sessionPubKey encrypted = Some (vk, readTlv plain)"
    using vk sh d r by (simp add: verify1_decryptedTlv_def Let_def key_def)
  from ok vk sh d r obtain ident sg where
    i: "Map_get (readTlv plain) TlvValue_Identifier = Some ident"
    and s: "Map_get (readTlv plain) TlvValue_Signature = Some sg"
    by (cases "Map_get (readTlv plain) TlvValue_Identifier";
        cases "Map_get (readTlv plain) TlvValue_Signature")
       (simp_all add: verify1_def Let_def key_def)
  from ok vk sh d r i s have "ident = atvId credentials"
    and "ed25519Verify C (ltpk credentials)
           (sessionPubKey @ atvId credentials @ publicKey vk) sg"
    by (auto simp: verify1_def Let_def key_def split: if_splits)
  with t i s show "\<exists>vk tlv signature.
          verify1_decryptedTlv C h sessionPubKey encrypted = Some (vk, tlv)
          \<and> Map_get tlv TlvValue_Identifier = Some (atvId credentials)
          \<and> Map_get tlv TlvValue_Signature = Some signature
          \<and> ed25519Verify C (ltpk credentials)
                (sessionPubKey @ atvId credentials @ publicKey vk) signature"
    by blast
next
  assume a: "verify1_decryptedTlv C h sessionPubKey encrypted = Some (vk', tlv')
        \<and> (Map_get tlv' TlvValue_Identifier \<noteq> Some (atvId credentials)
            \<or> (\<forall>signature. Map_get tlv' TlvValue_Signature = Some signature \<longrightarrow>
                  \<not> ed25519Verify C (ltpk credentials)
                       (sessionPubKey @ atvId credentials @ publicKey vk') signature))"
  then have t: "verify1_decryptedTlv C h sessionPubKey encrypted = Some (vk', tlv')"
    by blast
  then have vk: "verifyKey h = Some vk'"
    by (cases "verifyKey h")
       (auto simp: verify1_decryptedTlv_def Let_def split: sum.splits)
  from t vk obtain shared where
    sh: "x25519SharedSecret C (privateKey vk') sessionPubKey = Inr shared"
    by (cases "x25519SharedSecret C (privateKey vk') sessionPubKey")
       (simp_all add: verify1_decryptedTlv_def)
  define key where
    "key = hkdfExpand C ''Pair-Verify-Encrypt-Salt'' ''Pair-Verify-Encrypt-Info'' shared"
  obtain chacha' r where
    d: "decrypt (chacha20poly1305 C) (new_Chacha20Cipher8byteNonce key key) encrypted
          (Some (NonceString ''PV-Msg02'')) None = (chacha', r)"
    by (cases "decrypt (chacha20poly1305 C) (new_Chacha20Cipher8byteNonce key key) encrypted
          (Some (NonceString ''PV-Msg02'')) None")
  from t vk sh d obtain plain where r: "r = Inr plain" and tlv: "tlv' = readTlv plain"
    by (cases r) (simp_all add: verify1_decryptedTlv_def Let_def key_def)
  show "\<exists>h'' msg. verify1 C h credentials sessionPubKey encrypted
                    = Some (h'', Inl (AuthenticationError msg))"
  proof (cases "Map_get tlv' TlvValue_Identifier")
    case None
    then show ?thesis
      using vk sh d r tlv by (simp add: verify1_def Let_def key_def)
  next
    case i: (Some ident)
    show ?thesis
    proof (cases "Map_get tlv' TlvValue_Signature")
      case None
      then show ?thesis
        using vk sh d r tlv i by (simp add: verify1_def Let_def key_def)
    next
      case s: (Some sg)
      show ?thesis
      proof (cases "ident = atvId credentials")
        case False
        then show ?thesis
          using vk sh d r tlv i s by (simp add: verify1_def Let_def key_def)
      next
        case True
        with a i s have "\<not> ed25519Verify C (ltpk credentials)
                            (sessionPubKey @ atvId credentials @ publicKey vk') sg"
          by auto
        then show ?thesis
          using vk sh d r tlv i s True by (simp add: verify1_def Let_def key_def)
      qed
    qed
  qed
next
  assume a: "verifyKey h = Some vk''
        \<and> x25519SharedSecret C (privateKey vk'') sessionPubKey = Inr shared
        \<and> snd (decrypt (chacha20poly1305 C)
                  (new_Chacha20Cipher8byteNonce
                     (hkdfExpand C ''Pair-Verify-Encrypt-Salt'' ''Pair-Verify-Encrypt-Info'' shared)
                     (hkdfExpand C ''Pair-Verify-Encrypt-Salt'' ''Pair-Verify-Encrypt-Info'' shared))
                  encrypted (Some (NonceString ''PV-Msg02'')) None) = Inl e"
  show "verify1 C h credentials sessionPubKey encrypted
          = Some (h\<lparr>sharedSecret := Some shared\<rparr>, Inl e)"
    by (rule verify1_decrypt_raises [OF a [THEN conjunct1] a [THEN conjunct2, THEN conjunct1]
              a [THEN conjunct2, THEN conjunct2]])
qed

theorem verify1_checks_device_witness:
  "verify1 sample_crypto
      ((new_SRPAuthHandler (\<lambda>i. 0))\<lparr>verifyKey := Some \<lparr>privateKey = [7], publicKey = [8]\<rparr>\<rparr>)
      \<lparr>ltpk = [5], ltsk = [6], atvId = [0xAA], clientId = [0xCC]\<rparr> [0x20]
      ([1, 1, 0xAA, 10, 4, 5, 0x20, 0xAA, 8] @ replicate 16 0)
     = Some ((new_SRPAuthHandler (\<lambda>i. 0))
               \<lparr>verifyKey := Some \<lparr>privateKey = [7], publicKey = [8]\<rparr>,
                sharedSecret := Some [7, 0x20]\<rparr>,
             Inr ([1, 1, 0xCC, 10, 4, 6, 8, 0xCC, 0x20] @ replicate 16 0))
   \<and> (\<exists>vk tlv signature.
         verify1_decryptedTlv sample_crypto
            ((new_SRPAuthHandler (\<lambda>i. 0))\<lparr>verifyKey := Some \<lparr>privateKey = [7], publicKey = [8]\<rparr>\<rparr>)
            [0x20] ([1, 1, 0xAA, 10, 4, 5, 0x20, 0xAA, 8] @ replicate 16 0) = Some (vk, tlv)
         \<and> Map_get tlv TlvValue_Identifier = Some [0xAA]
         \<and> Map_get tlv TlvValue_Signature = Some signature
         \<and> ed25519Verify sample_crypto [5] ([0x20] @ [0xAA] @ publicKey vk) signature)
   \<and> verify1_decryptedTlv sample_crypto
        ((new_SRPAuthHandler (\<lambda>i. 0))\<lparr>verifyKey := Some \<lparr>privateKey = [7], publicKey = [8]\<rparr>\<rparr>)
        [0x20] ([1, 1, 0xAB, 10, 4, 5, 0x20, 0xAA, 8] @ replicate 16 0)
       = Some (\<lparr>privateKey = [7], publicKey = [8]\<rparr>, [(1, [0xAB]), (10, [5, 0x20, 0xAA, 8])])
   \<and> Map_get [(1, [0xAB]), (10, [5, 0x20, 0xAA, 8 :: byte])] TlvValue_Identifier \<noteq> Some [0xAA]
   \<and> (\<exists>h'' msg.
         verify1 sample_crypto
            ((new_SRPAuthHandler (\<lambda>i. 0))\<lparr>verifyKey := Some \<lparr>privateKey = [7], publicKey = [8]\<rparr>\<rparr>)
            \<lparr>ltpk = [5], ltsk = [6], atvId = [0xAA], clientId = [0xCC]\<rparr> [0x20]
            ([1, 1, 0xAB, 10, 4, 5, 0x20, 0xAA, 8] @ replicate 16 0)
          = Some (h'', Inl (AuthenticationError msg)))
   \<and> x25519SharedSecret keyed_crypto [7] [0x21] = Inr [7, 0x21]
   \<and> snd (decrypt keyed_aead (new_Chacha20Cipher8byteNonce [7, 0x21] [7, 0x21])
             ([1, 1, 0xAA, 10, 4, 5, 0x20, 0xAA, 8, 7, 0x20] @ replicate 14 0)
             (Some (NonceString ''PV-Msg02'')) None) = Inl (Error ''invalid tag'')
   \<and> verify1 keyed_crypto
        ((new_SRPAuthHandler (\<lambda>i. 0))\<lparr>verifyKey := Some \<lparr>privateKey = [7], publicKey = [8]\<rparr>\<rparr>)
        \<lparr>ltpk = [5], ltsk = [6], atvId = [0xAA], clientId = [0xCC]\<rparr> [0x21]
        ([1, 1, 0xAA, 10, 4, 5, 0x20, 0xAA, 8, 7, 0x20] @ replicate 14 0)
       = Some ((new_SRPAuthHandler (\<lambda>i. 0))
                 \<lparr>verifyKey := Some \<lparr>privateKey = [7], publicKey = [8]\<rparr>,
                  sharedSecret := Some [7, 0x21]\<rparr>,
               Inl (Error ''invalid tag''))"
proof -
  define h where
    "h = (new_SRPAuthHandler (\<lambda>i. 0))\<lparr>verifyKey := Some \<lparr>privateKey = [7], publicKey = [8]\<rparr>\<rparr>"
  define cred where "cred = \<lparr>ltpk = [5], ltsk = [6], atvId = [0xAA], clientId = [0xCC :: byte]\<rparr>"
  have e1: "verify1 sample_crypto h cred [0x20]
              ([1, 1, 0xAA, 10, 4, 5, 0x20, 0xAA, 8] @ replicate 16 0)
            = Some (h\<lparr>sharedSecret := Some [7, 0x20]\<rparr>,
                    Inr ([1, 1, 0xCC, 10, 4, 6, 8, 0xCC, 0x20] @ replicate 16 0))"
    unfolding h_def cred_def by code_simp
  have e2: "verify1_decryptedTlv sample_crypto h [0x20]
              ([1, 1, 0xAB, 10, 4, 5, 0x20, 0xAA, 8] @ replicate 16 0)
            = Some (\<lparr>privateKey = [7], publicKey = [8]\<rparr>, [(1, [0xAB]), (10, [5, 0x20, 0xAA, 8])])"
    unfolding h_def by code_simp
  have e3: "Map_get [(1, [0xAB]), (10, [5, 0x20, 0xAA, 8 :: byte])] TlvValue_Identifier
              \<noteq> Some (atvId cred)"
    by (simp add: Map_get_def TlvValue_Identifier_def cred_def)
  have a: "\<exists>vk tlv signature.
         verify1_decryptedTlv sample_crypto h [0x20]
            ([1, 1, 0xAA, 10, 4, 5, 0x20, 0xAA, 8] @ replicate 16 0) = Some (vk, tlv)
         \<and> Map_get tlv TlvValue_Identifier = Some (atvId cred)
         \<and> Map_get tlv TlvValue_Signature = Some signature
         \<and> ed25519Verify sample_crypto (ltpk cred) ([0x20] @ atvId cred @ publicKey vk) signature"
    using verify1_checks_device [of sample_crypto h cred "[0x20]"
            "[1, 1, 0xAA, 10, 4, 5, 0x20, 0xAA, 8] @ replicate 16 0",
            THEN conjunct1, rule_format, OF e1] .
  have b: "\<exists>h'' msg. verify1 sample_crypto h cred [0x20]
              ([1, 1, 0xAB, 10, 4, 5, 0x20, 0xAA, 8] @ replicate 16 0)
            = Some (h'', Inl (AuthenticationError msg))"
    using verify1_checks_device [of sample_crypto h cred "[0x20]"
            "[1, 1, 0xAB, 10, 4, 5, 0x20, 0xAA, 8] @ replicate 16 0",
            THEN conjunct2, THEN conjunct1, rule_format, OF conjI [OF e2 disjI1 [OF e3]]] .
  have k1: "verifyKey h = Some \<lparr>privateKey = [7], publicKey = [8]\<rparr>"
    by (simp add: h_def)
  have k2: "x25519SharedSecret keyed_crypto (privateKey \<lparr>privateKey = [7], publicKey = [8]\<rparr>)
              [0x21] = Inr [7, 0x21]"
    by (simp add: keyed_crypto_def sample_crypto_def)
  have k: "hkdfExpand keyed_crypto ''Pair-Verify-Encrypt-Salt'' ''Pair-Verify-Encrypt-Info''
             [7, 0x21] = [7, 0x21]"
    by (simp add: keyed_crypto_def sample_crypto_def)
  have k3: "snd (decrypt keyed_aead (new_Chacha20Cipher8byteNonce [7, 0x21] [7, 0x21])
                  ([1, 1, 0xAA, 10, 4, 5, 0x20, 0xAA, 8, 7, 0x20] @ replicate 14 0)
                  (Some (NonceString ''PV-Msg02'')) None) = Inl (Error ''invalid tag'')"
    by code_simp
  have k3': "snd (decrypt (chacha20poly1305 keyed_crypto)
                  (new_Chacha20Cipher8byteNonce
                     (hkdfExpand keyed_crypto ''Pair-Verify-Encrypt-Salt''
                        ''Pair-Verify-Encrypt-Info'' [7, 0x21])
                     (hkdfExpand keyed_crypto ''Pair-Verify-Encrypt-Salt''
                        ''Pair-Verify-Encrypt-Info'' [7, 0x21]))
                  ([1, 1, 0xAA, 10, 4, 5, 0x20, 0xAA, 8, 7, 0x20] @ replicate 14 0)
                  (Some (NonceString ''PV-Msg02'')) None) = Inl (Error ''invalid tag'')"
    unfolding k using k3 by (simp add: keyed_crypto_def)
  have c: "verify1 keyed_crypto h cred [0x21]
             ([1, 1, 0xAA, 10, 4, 5, 0x20, 0xAA, 8, 7, 0x20] @ replicate 14 0)
           = Some (h\<lparr>sharedSecret := Some [7, 0x21]\<rparr>, Inl (Error ''invalid tag''))"
    using verify1_checks_device [of keyed_crypto h cred "[0x21]"
            "[1, 1, 0xAA, 10, 4, 5, 0x20, 0xAA, 8, 7, 0x20] @ replicate 14 0",
            THEN conjunct2, THEN conjunct2, rule_format, OF conjI [OF k1 conjI [OF k2 k3']]] .
  have k2': "x25519SharedSecret keyed_crypto [7] [0x21] = Inr [7, 0x21]"
    using k2 by simp
  from e1 a e2 e3 b have "?thesis = (x25519SharedSecret keyed_crypto [7] [0x21] = Inr [7, 0x21]
     \<and> snd (decrypt keyed_aead (new_Chacha20Cipher8byteNonce [7, 0x21] [7, 0x21])
             ([1, 1, 0xAA, 10, 4, 5, 0x20, 0xAA, 8, 7, 0x20] @ replicate 14 0)
             (Some (NonceString ''PV-Msg02'')) None) = Inl (Error ''invalid tag'')
     \<and> verify1 keyed_crypto h cred [0x21]
             ([1, 1, 0xAA, 10, 4, 5, 0x20, 0xAA, 8, 7, 0x20] @ replicate 14 0)
           = Some (h\<lparr>sharedSecret := Some [7, 0x21]\<rparr>, Inl (Error ''invalid tag'')))"
    unfolding h_def cred_def by simp
  with k2' k3 c show ?thesis
    by blast
qed

text \<open>
  The counterexample to C7 as the specification words it. The device's data is sealed
  under the key derived from the device's ephemeral public key \<open>[0x20]\<close>, and
  \<open>verify1\<close> answers it with M3. With one bit of that public key flipped, the derived
  key differs, the decryption raises the plain \<open>Error\<close> of the AEAD, and that, not an
  \<open>AuthenticationError\<close>, is what \<open>verify1\<close> raises.
\<close>

theorem verify1_checks_device_counterexample:
  "verify1 keyed_crypto
      ((new_SRPAuthHandler (\<lambda>i. 0))\<lparr>verifyKey := Some \<lparr>privateKey = [7], publicKey = [8]\<rparr>\<rparr>)
      \<lparr>ltpk = [5], ltsk = [6], atvId = [0xAA], clientId = [0xCC]\<rparr> [0x20]
      ([1, 1, 0xAA, 10, 4, 5, 0x20, 0xAA, 8, 7, 0x20] @ replicate 14 0)
     = Some ((new_SRPAuthHandler (\<lambda>i. 0))
               \<lparr>verifyKey := Some \<lparr>privateKey = [7], publicKey = [8]\<rparr>,
                sharedSecret := Some [7, 0x20]\<rparr>,
             Inr ([1, 1, 0xCC, 10, 4, 6, 8, 0xCC, 0x20, 7, 0x20] @ replicate 14 0))
   \<and> verify1 keyed_crypto
        ((new_SRPAuthHandler (\<lambda>i. 0))\<lparr>verifyKey := Some \<lparr>privateKey = [7], publicKey = [8]\<rparr>\<rparr>)
        \<lparr>ltpk = [5], ltsk = [6], atvId = [0xAA], clientId = [0xCC]\<rparr> [0x21]
        ([1, 1, 0xAA, 10, 4, 5, 0x20, 0xAA, 8, 7, 0x20] @ replicate 14 0)
       = Some ((new_SRPAuthHandler (\<lambda>i. 0))
                 \<lparr>verifyKey := Some \<lparr>privateKey = [7], publicKey = [8]\<rparr>,
                  sharedSecret := Some [7, 0x21]\<rparr>,
               Inl (Error ''invalid tag''))
   \<and> (\<forall>msg. Error ''invalid tag'' \<noteq> AuthenticationError msg)"
  by (intro conjI) (code_simp, code_simp, simp)

text \<open>
  C9, as the code has it. The \<open>clientId\<close> of every credential set that \<open>step4\<close>
  returns is the \<open>pairingId\<close> the constructor made: the bytes of the text of a version-4
  UUID, \<open>Buffer.from(uuidv4())\<close>. It is 36 bytes long, the 32 hexadecimal digits and the
  four dashes, not the 16 bytes of the UUID in binary.
\<close>

theorem step4_clientId_length:
  assumes "pairingId h = pairingId (new_SRPAuthHandler rnds)"
    and "step4 C h encryptedData = Inr credentials"
  shows "clientId credentials = utf8 (uuidv4 rnds) \<and> length (clientId credentials) = 36"
proof -
  have "clientId credentials = pairingId h"
    using assms(2)
    by (auto simp: step4_def Let_def split: option.splits sum.splits if_splits)
  then show ?thesis
    using assms(1) by (simp add: new_SRPAuthHandler_def length_uuidv4)
qed

theorem step4_clientId_length_witness:
  "pairingId ((new_SRPAuthHandler (\<lambda>i. 0))
       \<lparr>signingKey := Some \<lparr>privateKey = [7], publicKey = [8]\<rparr>, sessionKey := Some [9]\<rparr>)
     = pairingId (new_SRPAuthHandler (\<lambda>i. 0))
   \<and> step4 sample_crypto ((new_SRPAuthHandler (\<lambda>i. 0))
       \<lparr>signingKey := Some \<lparr>privateKey = [7], publicKey = [8]\<rparr>, sessionKey := Some [9]\<rparr>)
       ([1, 1, 0xAA, 3, 1, 0xBB] @ replicate 16 0)
     = Inr \<lparr>ltpk = [0xBB], ltsk = [7], atvId = [0xAA],
            clientId = utf8 ''00000000-0000-4000-8000-000000000000''\<rparr>
   \<and> length (clientId \<lparr>ltpk = [0xBB], ltsk = [7], atvId = [0xAA],
            clientId = utf8 ''00000000-0000-4000-8000-000000000000''\<rparr>) = 36"
proof -
  define h where "h = (new_SRPAuthHandler (\<lambda>i. 0))
       \<lparr>signingKey := Some \<lparr>privateKey = [7], publicKey = [8]\<rparr>, sessionKey := Some [9]\<rparr>"
  have p: "pairingId h = pairingId (new_SRPAuthHandler (\<lambda>i. 0))"
    by (simp add: h_def)
  have e: "step4 sample_crypto h ([1, 1, 0xAA, 3, 1, 0xBB] @ replicate 16 0)
     = Inr \<lparr>ltpk = [0xBB], ltsk = [7], atvId = [0xAA],
            clientId = utf8 ''00000000-0000-4000-8000-000000000000''\<rparr>"
    unfolding h_def by code_simp
  from step4_clientId_length [OF p e] p e show ?thesis
    unfolding h_def by blast
qed

theorem step4_clientId_counterexample:
  "(case step4 sample_crypto ((new_SRPAuthHandler (\<lambda>i. 0))
           \<lparr>signingKey := Some \<lparr>privateKey = [7], publicKey = [8]\<rparr>, sessionKey := Some [9]\<rparr>)
           ([1, 1, 0xAA, 3, 1, 0xBB] @ replicate 16 0) of
      Inl e \<Rightarrow> False
    | Inr credentials \<Rightarrow>
        length (clientId credentials) = 36 \<and> length (clientId credentials) \<noteq> 16)"
  by code_simp

section \<open>Properties of the OPACK codec\<close>

text \<open>
  \<open>unpack\<close> returns for every buffer, with a value or with an exception: a call of
  \<open>unpackInternal\<close> that returns a value has consumed at least one byte, and the bound
  that \<open>unpack\<close> passes is never reached.
\<close>

lemma unpack_scalar_shrinks:
  assumes "unpack_scalar tag (tag # xs) = Some (Inr (v, rest, a, f))"
  shows "length rest < length (tag # xs)"
  using assms
  by (auto simp: unpack_scalar_def Let_def split: if_splits sum.splits)

lemma unpack_reference_shrinks:
  assumes "unpack_reference tag (tag # xs) ol = Some (Inr (v, rest, a, f))"
  shows "length rest < length (tag # xs)"
  using assms
  by (auto simp: unpack_reference_def Let_def split: if_splits sum.splits)


lemma unpack_array_shrinks:
  assumes A: "\<And>data ol v rest ol'.
      unpackInternal fuel host data ol = Some (Inr (v, rest, ol')) \<Longrightarrow> length rest < length data"
  shows "unpack_array fuel host n ptr ol out = Some (Inr (out', rest, ol'))
           \<Longrightarrow> length rest \<le> length ptr"
proof (induction n arbitrary: ptr ol out)
  case 0
  then show ?case by simp
next
  case (Suc n)
  from Suc.prems obtain item rest1 ol1 where
    u: "unpackInternal fuel host ptr ol = Some (Inr (item, rest1, ol1))"
    and r: "unpack_array fuel host n rest1 ol1 (out @ [item]) = Some (Inr (out', rest, ol'))"
    by (auto split: option.splits sum.splits)
  from A [OF u] Suc.IH [OF r] show ?case by simp
qed

lemma unpack_dict_shrinks:
  assumes A: "\<And>data ol v rest ol'.
      unpackInternal fuel host data ol = Some (Inr (v, rest, ol')) \<Longrightarrow> length rest < length data"
  shows "unpack_dict fuel host n ptr ol out = Some (Inr (out', rest, ol'))
           \<Longrightarrow> length rest \<le> length ptr"
proof (induction n arbitrary: ptr ol out)
  case 0
  then show ?case by simp
next
  case (Suc n)
  from Suc.prems obtain key rest1 ol1 val rest2 ol2 where
    u1: "unpackInternal fuel host ptr ol = Some (Inr (key, rest1, ol1))"
    and u2: "unpackInternal fuel host rest1 ol1 = Some (Inr (val, rest2, ol2))"
    and r: "unpack_dict fuel host n rest2 ol2 (Object_set out (js_String host key) val)
              = Some (Inr (out', rest, ol'))"
    by (auto split: option.splits sum.splits)
  from A [OF u1] A [OF u2] Suc.IH [OF r] show ?case by simp
qed

lemma unpack_shrinks:
  "(\<forall>data ol v rest ol'.
      unpackInternal fuel host data ol = Some (Inr (v, rest, ol')) \<longrightarrow> length rest < length data)
   \<and> (\<forall>ptr ol out out' rest ol'.
      unpack_endless_array fuel host ptr ol out = Some (Inr (out', rest, ol'))
        \<longrightarrow> length rest < length ptr)
   \<and> (\<forall>ptr ol out out' rest ol'.
      unpack_endless_dict fuel host ptr ol out = Some (Inr (out', rest, ol'))
        \<longrightarrow> length rest < length ptr)"
proof (induction fuel)
  case 0
  then show ?case by simp
next
  case (Suc fuel)
  then have A: "\<And>data ol v rest ol'.
      unpackInternal fuel host data ol = Some (Inr (v, rest, ol')) \<Longrightarrow> length rest < length data"
    and E: "\<And>ptr ol out out' rest ol'.
      unpack_endless_array fuel host ptr ol out = Some (Inr (out', rest, ol'))
        \<Longrightarrow> length rest < length ptr"
    and D: "\<And>ptr ol out out' rest ol'.
      unpack_endless_dict fuel host ptr ol out = Some (Inr (out', rest, ol'))
        \<Longrightarrow> length rest < length ptr"
    by blast+
  have Arr: "length rest \<le> length ptr"
    if "unpack_array fuel host n ptr ol out = Some (Inr (out', rest, ol'))"
    for n ptr ol out out' rest ol'
    using that by (rule unpack_array_shrinks [rotated]) (rule A)
  have Dict: "length rest \<le> length ptr"
    if "unpack_dict fuel host n ptr ol out = Some (Inr (out', rest, ol'))"
    for n ptr ol out out' rest ol'
    using that by (rule unpack_dict_shrinks [rotated]) (rule A)
  have A': "length rest < length data"
    if u: "unpackInternal (Suc fuel) host data ol = Some (Inr (v, rest, ol'))"
    for data ol v rest ol'
  proof (cases data)
    case Nil
    with u show ?thesis by simp
  next
    case (Cons tag xs)
    show ?thesis
    proof (cases "unpack_scalar tag data")
      case (Some r)
      with u Cons have "remember r ol = Inr (v, rest, ol')" by simp
      then show ?thesis
        using Some unpack_scalar_shrinks [of tag xs] Cons
        by (auto simp: remember_def split: sum.splits prod.splits)
    next
      case None
      show ?thesis
      proof (cases "tag AND 0xf0 = 0xd0")
        case True
        show ?thesis
        proof (cases "tag AND 0xf = 0xf")
          case e: True
          from u Cons None True e obtain out' where
            "unpack_endless_array fuel host xs ol [] = Some (Inr (out', rest, ol'))"
            by (auto split: option.splits sum.splits)
          from E [OF this] Cons show ?thesis by simp
        next
          case e: False
          from u Cons None True e obtain out' where
            "unpack_array fuel host (unat (tag AND 0xf)) xs ol [] = Some (Inr (out', rest, ol'))"
            by (auto split: option.splits sum.splits)
          from Arr [OF this] Cons show ?thesis by simp
        qed
      next
        case False
        show ?thesis
        proof (cases "tag AND 0xe0 = 0xe0")
          case d: True
          show ?thesis
          proof (cases "tag AND 0xf = 0xf")
            case e: True
            from u Cons None False d e obtain out' where
              "unpack_endless_dict fuel host xs ol [] = Some (Inr (out', rest, ol'))"
              by (auto split: option.splits sum.splits)
            from D [OF this] Cons show ?thesis by simp
          next
            case e: False
            from u Cons None False d e obtain out' where
              "unpack_dict fuel host (unat (tag AND 0xf)) xs ol [] = Some (Inr (out', rest, ol'))"
              by (auto split: option.splits sum.splits)
            from Dict [OF this] Cons show ?thesis by simp
          qed
        next
          case d: False
          from u Cons None False d obtain r where
            r: "unpack_reference tag data ol = Some r" and "remember r ol = Inr (v, rest, ol')"
            by (auto split: option.splits)
          then show ?thesis
            using unpack_reference_shrinks [of tag xs ol] Cons
            by (auto simp: remember_def split: sum.splits prod.splits)
        qed
      qed
    qed
  qed
  have E': "length rest < length ptr"
    if u: "unpack_endless_array (Suc fuel) host ptr ol out = Some (Inr (out', rest, ol'))"
    for ptr ol out out' rest ol'
  proof (cases "ptr \<noteq> [] \<and> hd ptr = 0x03")
    case True
    with u show ?thesis by (cases ptr) auto
  next
    case False
    with u obtain item rest1 ol1 where
      u1: "unpackInternal fuel host ptr ol = Some (Inr (item, rest1, ol1))"
      and r: "unpack_endless_array fuel host rest1 ol1 (out @ [item]) = Some (Inr (out', rest, ol'))"
      by (auto split: option.splits sum.splits)
    from A [OF u1] E [OF r] show ?thesis by simp
  qed
  have D': "length rest < length ptr"
    if u: "unpack_endless_dict (Suc fuel) host ptr ol out = Some (Inr (out', rest, ol'))"
    for ptr ol out out' rest ol'
  proof (cases "ptr \<noteq> [] \<and> hd ptr = 0x03")
    case True
    with u show ?thesis by (cases ptr) auto
  next
    case False
    with u obtain key rest1 ol1 val rest2 ol2 where
      u1: "unpackInternal fuel host ptr ol = Some (Inr (key, rest1, ol1))"
      and u2: "unpackInternal fuel host rest1 ol1 = Some (Inr (val, rest2, ol2))"
      and r: "unpack_endless_dict fuel host rest2 ol2 (Object_set out (js_String host key) val)
                = Some (Inr (out', rest, ol'))"
      by (auto split: option.splits sum.splits)
    from A [OF u1] A [OF u2] D [OF r] show ?thesis by simp
  qed
  from A' E' D' show ?case by blast
qed

lemma unpackInternal_shrinks:
  "unpackInternal fuel host data ol = Some (Inr (v, rest, ol')) \<Longrightarrow> length rest < length data"
  using unpack_shrinks [of fuel host] by blast

lemma unpack_array_returns:
  assumes A: "\<And>data ol. 2 * length data < fuel \<Longrightarrow> unpackInternal fuel host data ol \<noteq> None"
  shows "2 * length ptr < fuel \<Longrightarrow> unpack_array fuel host n ptr ol out \<noteq> None"
proof (induction n arbitrary: ptr ol out)
  case 0
  then show ?case by simp
next
  case (Suc n)
  show ?case
  proof (cases "unpackInternal fuel host ptr ol")
    case None
    with A [OF Suc.prems, of ol] show ?thesis by simp
  next
    case (Some r)
    show ?thesis
    proof (cases r)
      case (Inl e)
      with Some show ?thesis by simp
    next
      case (Inr t)
      obtain item rest ol' where t: "t = (item, rest, ol')" by (cases t)
      from unpackInternal_shrinks Some Inr t have "length rest < length ptr" by blast
      with Suc.prems have "2 * length rest < fuel" by simp
      from Suc.IH [OF this] Some Inr t show ?thesis by simp
    qed
  qed
qed

lemma unpack_dict_returns:
  assumes A: "\<And>data ol. 2 * length data < fuel \<Longrightarrow> unpackInternal fuel host data ol \<noteq> None"
  shows "2 * length ptr < fuel \<Longrightarrow> unpack_dict fuel host n ptr ol out \<noteq> None"
proof (induction n arbitrary: ptr ol out)
  case 0
  then show ?case by simp
next
  case (Suc n)
  show ?case
  proof (cases "unpackInternal fuel host ptr ol")
    case None
    with A [OF Suc.prems, of ol] show ?thesis by simp
  next
    case (Some r)
    show ?thesis
    proof (cases r)
      case (Inl e)
      with Some show ?thesis by simp
    next
      case (Inr t)
      obtain key rest1 ol1 where t: "t = (key, rest1, ol1)" by (cases t)
      from unpackInternal_shrinks Some Inr t have l1: "length rest1 < length ptr" by blast
      with Suc.prems have f1: "2 * length rest1 < fuel" by simp
      show ?thesis
      proof (cases "unpackInternal fuel host rest1 ol1")
        case None
        with A [OF f1, of ol1] show ?thesis by simp
      next
        case s2: (Some r2)
        show ?thesis
        proof (cases r2)
          case (Inl e)
          with Some Inr t s2 show ?thesis by simp
        next
          case i2: (Inr t2)
          obtain val rest2 ol2 where t2: "t2 = (val, rest2, ol2)" by (cases t2)
          from unpackInternal_shrinks s2 i2 t2 have "length rest2 < length rest1" by blast
          with f1 have "2 * length rest2 < fuel" by simp
          from Suc.IH [OF this] Some Inr t s2 i2 t2 show ?thesis by simp
        qed
      qed
    qed
  qed
qed

lemma unpack_returns:
  "(\<forall>data ol. 2 * length data < fuel \<longrightarrow> unpackInternal fuel host data ol \<noteq> None)
   \<and> (\<forall>ptr ol out. 2 * length ptr + 1 < fuel \<longrightarrow>
         unpack_endless_array fuel host ptr ol out \<noteq> None)
   \<and> (\<forall>ptr ol out. 2 * length ptr + 1 < fuel \<longrightarrow>
         unpack_endless_dict fuel host ptr ol out \<noteq> None)"
proof (induction fuel)
  case 0
  then show ?case by simp
next
  case (Suc fuel)
  then have A: "\<And>data ol. 2 * length data < fuel \<Longrightarrow> unpackInternal fuel host data ol \<noteq> None"
    and E: "\<And>ptr ol out. 2 * length ptr + 1 < fuel \<Longrightarrow>
              unpack_endless_array fuel host ptr ol out \<noteq> None"
    and D: "\<And>ptr ol out. 2 * length ptr + 1 < fuel \<Longrightarrow>
              unpack_endless_dict fuel host ptr ol out \<noteq> None"
    by blast+
  have Arr: "unpack_array fuel host n ptr ol out \<noteq> None"
    if "2 * length ptr < fuel" for n ptr ol out
    using that by (rule unpack_array_returns [rotated]) (rule A)
  have Dict: "unpack_dict fuel host n ptr ol out \<noteq> None"
    if "2 * length ptr < fuel" for n ptr ol out
    using that by (rule unpack_dict_returns [rotated]) (rule A)
  have A': "unpackInternal (Suc fuel) host data ol \<noteq> None"
    if b: "2 * length data < Suc fuel" for data ol
  proof (cases data)
    case Nil
    then show ?thesis by simp
  next
    case (Cons tag xs)
    with b have x: "2 * length xs + 1 < fuel" by simp
    then have x': "2 * length xs < fuel" by simp
    have "unpack_endless_array fuel host xs ol [] \<noteq> None"
      "unpack_endless_dict fuel host xs ol [] \<noteq> None"
      "unpack_array fuel host (unat (tag AND 0xf)) xs ol [] \<noteq> None"
      "unpack_dict fuel host (unat (tag AND 0xf)) xs ol [] \<noteq> None"
      using E [OF x] D [OF x] Arr [OF x'] Dict [OF x'] by blast+
    then show ?thesis
      using Cons by (auto split: option.splits sum.splits)
  qed
  have E': "unpack_endless_array (Suc fuel) host ptr ol out \<noteq> None"
    if b: "2 * length ptr + 1 < Suc fuel" for ptr ol out
  proof (cases "ptr \<noteq> [] \<and> hd ptr = 0x03")
    case True
    then show ?thesis by simp
  next
    case False
    from b have f: "2 * length ptr < fuel" by simp
    show ?thesis
    proof (cases "unpackInternal fuel host ptr ol")
      case None
      with A [OF f, of ol] show ?thesis by simp
    next
      case (Some r)
      show ?thesis
      proof (cases r)
        case (Inl e)
        with Some False show ?thesis by simp
      next
        case (Inr t)
        obtain item rest ol' where t: "t = (item, rest, ol')" by (cases t)
        from unpackInternal_shrinks Some Inr t have "length rest < length ptr" by blast
        with f have "2 * length rest + 1 < fuel" by simp
        from E [OF this] Some Inr t False show ?thesis by simp
      qed
    qed
  qed
  have D': "unpack_endless_dict (Suc fuel) host ptr ol out \<noteq> None"
    if b: "2 * length ptr + 1 < Suc fuel" for ptr ol out
  proof (cases "ptr \<noteq> [] \<and> hd ptr = 0x03")
    case True
    then show ?thesis by simp
  next
    case False
    from b have f: "2 * length ptr < fuel" by simp
    show ?thesis
    proof (cases "unpackInternal fuel host ptr ol")
      case None
      with A [OF f, of ol] show ?thesis by simp
    next
      case (Some r)
      show ?thesis
      proof (cases r)
        case (Inl e)
        with Some False show ?thesis by simp
      next
        case (Inr t)
        obtain key rest1 ol1 where t: "t = (key, rest1, ol1)" by (cases t)
        from unpackInternal_shrinks Some Inr t have l1: "length rest1 < length ptr" by blast
        with f have f1: "2 * length rest1 < fuel" by simp
        show ?thesis
        proof (cases "unpackInternal fuel host rest1 ol1")
          case None
          with A [OF f1, of ol1] show ?thesis by simp
        next
          case s2: (Some r2)
          show ?thesis
          proof (cases r2)
            case (Inl e)
            with Some Inr t s2 False show ?thesis by simp
          next
            case i2: (Inr t2)
            obtain val rest2 ol2 where t2: "t2 = (val, rest2, ol2)" by (cases t2)
            from unpackInternal_shrinks s2 i2 t2 have "length rest2 < length rest1" by blast
            with l1 f have "2 * length rest2 + 1 < fuel" by simp
            from D [OF this] Some Inr t s2 i2 t2 False show ?thesis by simp
          qed
        qed
      qed
    qed
  qed
  from A' E' D' show ?case by blast
qed

lemma unpack_total: "\<exists>r. unpack host data = Some r"
proof -
  have "unpackInternal (2 * length data + 1) host data [] \<noteq> None"
    using unpack_returns [of "2 * length data + 1" host] by simp
  then show ?thesis
    by (auto simp: unpack_def split: option.splits sum.splits)
qed

text \<open>The model on the vectors of the repository's tests.\<close>

lemma pack_test_vectors:
  "pack (ONumber 0) = Inr [0x08]"
  "pack (ONumber 0x27) = Inr [0x2f]"
  "pack (ONumber 0x1ff) = Inr [0x31, 0xff, 0x01]"
  "pack (OSizedInt 1 4) = Inr [0x32, 0x01, 0x00, 0x00, 0x00]"
  "pack (OArray [ONumber 1, OString ''test'', OBool False])
     = Inr [0xd3, 0x09, 0x44, 0x74, 0x65, 0x73, 0x74, 0x02]"
  "pack (OArray [OString ''foo'', OString ''bar'', OString ''foo'', OString ''bar''])
     = Inr [0xd4, 0x43, 0x66, 0x6f, 0x6f, 0x43, 0x62, 0x61, 0x72, 0xa0, 0xa1]"
  "pack (OObject [(''a'', OString ''b''), (''c'', OObject [(''d'', OString ''a'')]),
                  (''d'', OBool True)])
     = Inr [0xe3, 0x41, 0x61, 0x41, 0x62, 0x41, 0x63, 0xe1, 0x41, 0x64, 0xa0, 0xa3, 0x01]"
  by code_simp+

lemma unpack_test_vectors:
  "unpack host [0x00] = Some (Inl (TypeError ''Unknown OPACK tag: 0x0''))"
  "unpack host [0x2f] = Some (Inr (ONumber 0x27, []))"
  "unpack host [0xd4, 0x43, 0x66, 0x6f, 0x6f, 0x43, 0x62, 0x61, 0x72, 0xa0, 0xa1]
     = Some (Inr (OArray [OString ''foo'', OString ''bar'', OString ''foo'', OString ''bar''], []))"
  "unpack host [0xdf, 0x30, 0x01, 0x30, 0x02, 0xc1, 0x01, 0x03]
     = Some (Inr (OArray [OSizedInt 1 1, OSizedInt 2 1, OSizedInt 2 1], []))"
  "unpack host [0xe3, 0x41, 0x61, 0x41, 0x62, 0x41, 0x63, 0xe1, 0x41, 0x64, 0xa0, 0xa3, 0x01]
     = Some (Inr (OObject [(''a'', OString ''b''), (''c'', OObject [(''d'', OString ''a'')]),
                           (''d'', OBool True)], []))"
  by code_simp+

text \<open>
  The properties of a decoded object: \<open>{"b": 1, "10": 2, "__proto__": 3, "2": 4}\<close> on the
  wire decodes to an object whose entries are \<open>"2"\<close>, \<open>"10"\<close>, \<open>"b"\<close>, and \<open>"01"\<close> is
  not an array index. \<open>pack\<close> refuses an object with an own property \<open>constructor\<close>,
  and \<open>unpack\<close> of the empty buffer raises the \<open>TypeError\<close> of reading a property of
  \<open>undefined\<close>.
\<close>

lemma object_property_vectors:
  "unpack host [0xe4, 0x41, 0x62, 0x09, 0x42, 0x31, 0x30, 0x0a,
                0x49, 0x5f, 0x5f, 0x70, 0x72, 0x6f, 0x74, 0x6f, 0x5f, 0x5f, 0x0b, 0x41, 0x32, 0x0c]
     = Some (Inr (OObject [(''2'', ONumber 4), (''10'', ONumber 2), (''b'', ONumber 1)], []))"
  "unpack host [0xe3, 0x42, 0x30, 0x31, 0x09, 0x41, 0x31, 0x0a, 0x42, 0x30, 0x31, 0x0b]
     = Some (Inr (OObject [(''1'', ONumber 2), (''01'', ONumber 3)], []))"
  "pack (OObject [(''constructor'', ONumber 1)]) = Inl (TypeError ''Unsupported type: undefined'')"
  "unpack host []
     = Some (Inl (TypeError (''Cannot read properties of undefined (reading '' @ apostrophe
                               @ ''toString'' @ apostrophe @ '')'')))"
  "array_index ''4294967294'' = Some 4294967294"
  "array_index ''4294967295'' = None"
  by code_simp+

text \<open>
  C1. The round trip that the specification states, \<open>unpack(pack(V)) == V\<close>, does not
  hold for the array \<open>["", "a", "a"]\<close>. \<open>pack\<close> encodes the empty string in the one byte
  \<open>0x40\<close>, which it does not put into its table, so \<open>"a"\<close> gets index 0 and the second
  \<open>"a"\<close> becomes the reference \<open>0xa0\<close>. \<open>unpackInternal\<close> appends every decoded string to
  its table, the empty one too, so there index 0 is \<open>""\<close>: the result is
  \<open>["", "a", ""]\<close>.
\<close>

theorem pack_unpack_empty_string:
  "pack (OArray [OString [], OString ''a'', OString ''a''])
     = Inr [0xd3, 0x40, 0x41, 0x61, 0xa0]
   \<and> unpack host [0xd3, 0x40, 0x41, 0x61, 0xa0]
     = Some (Inr (OArray [OString [], OString ''a'', OString []], []))
   \<and> OArray [OString [], OString ''a'', OString []]
     \<noteq> OArray [OString [], OString ''a'', OString ''a'']"
proof -
  have "pack (OArray [OString [], OString ''a'', OString ''a''])
          = Inr [0xd3, 0x40, 0x41, 0x61, 0xa0]"
    by code_simp
  moreover have "unpack host [0xd3, 0x40, 0x41, 0x61, 0xa0]
          = Some (Inr (OArray [OString [], OString ''a'', OString []], []))"
    by code_simp
  ultimately show ?thesis by simp
qed

text \<open>
  C2. \<open>packInternal\<close> does put the encoding of an array into its table: the
  deduplication at its end runs for a value of any kind and appends every new encoding
  longer than one byte. Packing \<open>[ ["a"], "b", "b"]\<close> leaves the table
  \<open>["a", ["a"], "b", \<dots>]\<close>, so the second \<open>"b"\<close> is emitted as the reference \<open>0xa2\<close>.
  \<open>unpackInternal\<close> does not add arrays to its table: when it comes to the byte \<open>0xa2\<close>
  its table is \<open>["a", "b"]\<close>, index 2 is not defined, and the element decodes to
  \<open>undefined\<close>.
\<close>

theorem pack_reference_undefined_at_decode:
  "packInternal (OArray [OArray [OString ''a''], OString ''b'', OString ''b'']) []
     = Inr ([0xd3, 0xd1, 0x41, 0x61, 0x41, 0x62, 0xa2],
            [ [0x41, 0x61], [0xd1, 0x41, 0x61], [0x41, 0x62],
             [0xd3, 0xd1, 0x41, 0x61, 0x41, 0x62, 0xa2]])
   \<and> unpack_array 14 host 2 [0xd1, 0x41, 0x61, 0x41, 0x62, 0xa2] [] []
     = Some (Inr ([OArray [OString ''a''], OString ''b''], [0xa2],
                  [OString ''a'', OString ''b'']))
   \<and> unpack_reference 0xa2 [0xa2] [OString ''a'', OString ''b'']
     = Some (Inr (OUndefined, [], True, False))
   \<and> unpack host [0xd3, 0xd1, 0x41, 0x61, 0x41, 0x62, 0xa2]
     = Some (Inr (OArray [OArray [OString ''a''], OString ''b'', OUndefined], []))"
  by code_simp

end
